theory Spec2Isabelle
  imports Main "HOL-Library.Multiset"
begin

section \<open>Errors and big numbers\<close>

text \<open>
  A JavaScript \<^verbatim>\<open>throw\<close> is a value of type \<open>error\<close>; a function that can
  throw returns \<open>error + 'a\<close> with \<open>Inl\<close> for the exception.  The message of an
  \<^verbatim>\<open>Error\<close> raised by the Dataworker itself is kept; a \<^verbatim>\<open>TypeError\<close> is what
  the runtime raises when a property of \<^verbatim>\<open>undefined\<close> is read, and
  \<open>BigNumberError\<close> is a fault raised by the big-number library.  \<open>Diverges\<close>
  stands for a call that never returns.

  The ethers \<^verbatim>\<open>BigNumber\<close> values that the Dataworker computes with are
  well-formed arbitrary-precision signed integers, so there a \<^verbatim>\<open>BigNumber\<close> is
  the \<open>int\<close> it stands for.
\<close>

datatype error = Error string | TypeError | BigNumberError string | Diverges

type_synonym BigNumber = int

section \<open>FormattingUtils: toBN\<close>

text \<open>
  A JavaScript string is a sequence of UTF-16 code units.  \<open>codeUnits\<close> gives the
  code units of a text of the Latin-1 range, in which numerals and signs lie.
\<close>

type_synonym codeUnit = nat

type_synonym jsString = "codeUnit list"

definition codeUnits :: "string \<Rightarrow> jsString" where
  "codeUnits s = map of_char s"

text \<open>
  \<^verbatim>\<open>parseInt\<close> with no radix, as ECMAScript defines it: leading white space is
  skipped, one sign is read, a \<^verbatim>\<open>0x\<close>/\<^verbatim>\<open>0X\<close> prefix selects radix 16, and the
  longest prefix of digits of the radix is the value; no digit at all gives
  \<^verbatim>\<open>NaN\<close>, which is \<open>None\<close> here.  White space is what the language trims: tab,
  line feed, vertical tab, form feed, carriage return, the space separators of
  Unicode (U+0020, U+00A0, U+1680, U+2000 to U+200A, U+202F, U+205F, U+3000),
  the line and paragraph separators U+2028 and U+2029, and the byte order mark
  U+FEFF.  The value is kept as the exact integer: the only consumer below
  refuses every number of magnitude \<open>2^53 - 1\<close> or more, and rounding to a double
  is monotone and exact below that bound.
\<close>

definition isWhiteSpace :: "codeUnit \<Rightarrow> bool" where
  "isWhiteSpace c =
     (c \<in> set [0x0009, 0x000A, 0x000B, 0x000C, 0x000D, 0x0020, 0x00A0, 0x1680, 0x2028, 0x2029,
               0x202F, 0x205F, 0x3000, 0xFEFF]
      \<or> (0x2000 \<le> c \<and> c \<le> 0x200A))"

definition digitVal :: "codeUnit \<Rightarrow> int option" where
  "digitVal c =
     (let n = int c in
      if 48 \<le> n \<and> n \<le> 57 then Some (n - 48)
      else if 97 \<le> n \<and> n \<le> 102 then Some (n - 87)
      else if 65 \<le> n \<and> n \<le> 70 then Some (n - 55)
      else None)"

definition isDigitOf :: "int \<Rightarrow> codeUnit \<Rightarrow> bool" where
  "isDigitOf radix c = (case digitVal c of None \<Rightarrow> False | Some d \<Rightarrow> d < radix)"

fun digitsVal :: "int \<Rightarrow> int \<Rightarrow> jsString \<Rightarrow> int" where
  "digitsVal radix acc [] = acc"
| "digitsVal radix acc (c # cs) = digitsVal radix (acc * radix + the (digitVal c)) cs"

definition startsWith :: "jsString \<Rightarrow> string \<Rightarrow> bool" where
  "startsWith s p = (take (length p) s = codeUnits p)"

definition parseInt :: "jsString \<Rightarrow> int option" where
  "parseInt inputString =
     (let S = dropWhile isWhiteSpace inputString;
          sign = (if startsWith S ''-'' then -1 else 1 :: int);
          S1 = (if startsWith S ''+'' \<or> startsWith S ''-'' then drop 1 S else S);
          hex = (startsWith S1 ''0x'' \<or> startsWith S1 ''0X'');
          R = (if hex then 16 else 10);
          S2 = (if hex then drop 2 S1 else S1);
          Z = takeWhile (isDigitOf R) S2
      in if Z = [] then None else Some (sign * digitsVal R 0 Z))"

text \<open>
  What \<^verbatim>\<open>BigNumber.from\<close> of ethers v5 returns is an object that holds a
  hexadecimal numeral.  \<open>BigNumberOf n\<close> is the object of the integer \<open>n\<close>.  A
  string with the upper-case prefix \<^verbatim>\<open>0X\<close> passes the test
  \<^verbatim>\<open>/^-?0x[0-9a-f]+$/i\<close> of \<^verbatim>\<open>BigNumber.from\<close>, but \<^verbatim>\<open>toHex\<close> knows the
  lower-case prefix only and puts a second one before it: the object is returned,
  what it holds is no numeral, and each of its methods throws.  That object is
  \<open>MalformedHex\<close> of the string it was made from.

  On a number: a fractional number is an underflow fault, a number outside the
  safe integers an overflow fault, \<^verbatim>\<open>NaN\<close> passes both tests and is refused as
  the string it prints as, and a safe integer is read from its decimal print.  On
  a string: an optional minus sign followed by \<^verbatim>\<open>0x\<close> and hexadecimal digits,
  or by decimal digits; anything else is refused.
\<close>

datatype BigNumberObject = BigNumberOf int | MalformedHex jsString

definition MAX_SAFE :: int where
  "MAX_SAFE = 2 ^ 53 - 1"

definition BigNumber_from_number :: "int option \<Rightarrow> error + BigNumberObject" where
  "BigNumber_from_number v =
     (case v of
        None \<Rightarrow> Inl (BigNumberError ''invalid BigNumber string'')
      | Some n \<Rightarrow>
          if n \<ge> MAX_SAFE \<or> n \<le> - MAX_SAFE then Inl (BigNumberError ''overflow'')
          else Inr (BigNumberOf n))"

definition BigNumber_from_string :: "jsString \<Rightarrow> error + BigNumberObject" where
  "BigNumber_from_string s =
     (let neg = startsWith s ''-'';
          body = (if neg then drop 1 s else s);
          sign = (if neg then -1 else 1 :: int)
      in if (startsWith body ''0x'' \<or> startsWith body ''0X'') \<and> drop 2 body \<noteq> []
              \<and> list_all (isDigitOf 16) (drop 2 body)
         then (if startsWith body ''0x''
               then Inr (BigNumberOf (sign * digitsVal 16 0 (drop 2 body)))
               else Inr (MalformedHex s))
         else if body \<noteq> [] \<and> list_all (isDigitOf 10) body
         then Inr (BigNumberOf (sign * digitsVal 10 0 body))
         else Inl (BigNumberError ''invalid BigNumber string''))"

text \<open>
  \<^verbatim>\<open>toBN\<close> only ever looks at \<^verbatim>\<open>num.toString()\<close>, so its argument here is that
  string.
\<close>

definition toBN :: "jsString \<Rightarrow> error + BigNumberObject" where
  "toBN numToString =
     (if of_char CHR ''.'' \<in> set numToString then BigNumber_from_number (parseInt numToString)
      else BigNumber_from_string numToString)"

section \<open>Data model\<close>

text \<open>
  A JavaScript \<^verbatim>\<open>number\<close> that holds a chain id, a block number, a deposit
  id or a count is an \<open>int\<close>; an address or a Merkle root is its hexadecimal
  \<open>string\<close>.  An object used as a dictionary is an association list whose order is
  the order in which \<^verbatim>\<open>Object.keys\<close> lists the keys.  Interfaces that extend
  one another are record extensions.
\<close>

type_synonym address = string

record RelayData =
  depositor :: address
  recipient :: address
  destinationToken :: address
  amount :: BigNumber
  originChainId :: int
  destinationChainId :: int
  realizedLpFeePct :: BigNumber
  relayerFeePct :: BigNumber
  depositId :: int

record Deposit = RelayData +
  originToken :: address
  quoteTimestamp :: int

record DepositWithBlock = Deposit +
  originBlockNumber :: int

record Fill = RelayData +
  fillAmount :: BigNumber
  totalFilledAmount :: BigNumber
  repaymentChainId :: int
  relayer :: address
  isSlowRelay :: bool

record FillWithBlock = Fill +
  blockNumber :: int
  transactionIndex :: int
  logIndex :: int

record UnfilledDeposit =
  deposit :: Deposit
  unfilledAmount :: BigNumber
  hasFirstFillInRange :: bool

type_synonym UnfilledDepositsForOriginChain = "(string \<times> UnfilledDeposit list) list"

record RefundGroup =
  totalRefundAmount :: BigNumber
  realizedLpFees :: BigNumber
  fills :: "Fill list"
  refunds :: "(address \<times> BigNumber) list"

type_synonym FillsToRefund = "(int \<times> (address \<times> RefundGroup) list) list"

type_synonym RunningBalances = "(int \<times> (address \<times> BigNumber) list) list"

type_synonym BigNumberForToken = "(address \<times> BigNumber) list"

record PoolRebalanceLeaf =
  chainId :: int
  groupIndex :: int
  bundleLpFees :: "BigNumber list"
  netSendAmounts :: "BigNumber list"
  runningBalances :: "BigNumber list"
  l1Tokens :: "address list"
  leafId :: int

text \<open>
  A relayer refund leaf under construction carries \<open>groupIndex\<close>; the final leaf
  has had the property deleted.  The property is therefore optional: \<open>None\<close> is
  the absent property.
\<close>

record RelayerRefundLeaf =
  groupIndex :: "int option"
  amountToReturn :: BigNumber
  chainId :: int
  refundAmounts :: "BigNumber list"
  leafId :: int
  l2TokenAddress :: address
  refundAddresses :: "address list"

record RootBundle =
  proposer :: address
  challengePeriodEndTimestamp :: int
  bundleEvaluationBlockNumbers :: "int list"
  unclaimedPoolRebalanceLeafCount :: int
  poolRebalanceRoot :: string
  relayerRefundRoot :: string
  slowRelayRoot :: string

text \<open>
  The results of the three root builders.  A Merkle tree is represented by its hex
  root, which is all the Dataworker reads from it besides proofs for its log.
\<close>

record 'l Root =
  leaves :: "'l list"
  tree :: string

record PoolRebalanceRoot = "PoolRebalanceLeaf Root" +
  runningBalances :: RunningBalances
  realizedLpFees :: RunningBalances

section \<open>External collaborators\<close>

text \<open>
  The clients are read-only snapshots.  A call that can fail returns \<open>error + 'a\<close>.
  The L1 token that \<^verbatim>\<open>getDestinationTokenForL1TokenDestinationChainId\<close> is asked
  about is \<open>None\<close> where the caller hands it \<^verbatim>\<open>undefined\<close>.
\<close>

record HubPoolClient =
  isUpdated :: bool
  hasPendingProposal :: bool
  getPendingRootBundleProposal :: RootBundle
  currentTime :: int
  latestBlockNumber :: int
  getNetworkChainId :: "error + int"
  getL1TokenCounterpartAtBlock :: "int \<Rightarrow> address \<Rightarrow> int \<Rightarrow> error + address"
  getDestinationTokenForL1TokenDestinationChainId :: "address option \<Rightarrow> int \<Rightarrow> error + address"
  getNextBundleStartBlockNumber :: "int list \<Rightarrow> int \<Rightarrow> int \<Rightarrow> error + int"

record ConfigStoreClient =
  isUpdated :: bool
  getMaxRefundCountForRelayerRefundLeafForBlock :: "int \<Rightarrow> error + int"
  getTokenTransferThresholdForBlock :: "address \<Rightarrow> int \<Rightarrow> error + BigNumber"

record SpokePoolClient =
  isUpdated :: bool
  getFillsWithBlockForOriginChain :: "int \<Rightarrow> FillWithBlock list"
  getDepositForFill :: "FillWithBlock \<Rightarrow> Deposit option"
  getDepositsForDestinationChain :: "int \<Rightarrow> DepositWithBlock list"

text \<open>
  \<open>spokePoolSigners\<close> maps a chain id to what \<^verbatim>\<open>provider.getBlockNumber()\<close> of
  its signer answers.  \<open>spokePoolClientForBlock chainId block\<close> is the SpokePool
  client that \<^verbatim>\<open>_constructSpokePoolClientsForBlockAndUpdate\<close> constructs for the
  chain at the mainnet block, after its \<^verbatim>\<open>update()\<close>.
\<close>

record DataworkerClients =
  hubPoolClient :: HubPoolClient
  configStoreClient :: ConfigStoreClient
  spokePoolSigners :: "(int \<times> (error + int)) list"
  spokePoolClientForBlock :: "int \<Rightarrow> int \<Rightarrow> error + SpokePoolClient"

record Dataworker =
  clients :: DataworkerClients
  chainIdListForBundleEvaluationBlockNumbers :: "int list"
  maxRefundCountOverride :: "int option"
  maxL1TokenCountOverride :: "int option"
  tokenTransferThreshold :: BigNumberForToken
  blockRangeEndBlockBuffer :: "(int \<times> int) list"

text \<open>
  The functions and constants that the Dataworker imports from modules of the
  repository whose text is not at hand (\<^verbatim>\<open>../utils\<close>, \<^verbatim>\<open>FillUtils\<close>,
  \<^verbatim>\<open>DepositUtils\<close>, \<^verbatim>\<open>PoolRebalanceUtils\<close>) are parameters.  A function
  that updates its argument in place returns the updated value.

  So is what the language prints for a number beyond the safe integers,
  \<open>largeNumberToString\<close>.

  One method of the Dataworker is a parameter too:
  \<^verbatim>\<open>_generateMarkdownForRootBundle\<close> formats the leaves for Slack through
  \<^verbatim>\<open>convertFromWei\<close> and the token symbols and decimals of the HubPool client;
  of this text only whether it can be produced matters here.
\<close>

record Utils =
  compareAddresses :: "address \<Rightarrow> address \<Rightarrow> int"
  EMPTY_MERKLE_ROOT :: string
  buildRelayerRefundTree :: "RelayerRefundLeaf list \<Rightarrow> string"
  buildSlowRelayTree :: "RelayData list \<Rightarrow> string"
  buildPoolRebalanceLeafTree :: "PoolRebalanceLeaf list \<Rightarrow> string"
  getUniqueDepositsInRange ::
    "(int \<times> int) list \<Rightarrow> int \<Rightarrow> int \<Rightarrow> int list \<Rightarrow> SpokePoolClient \<Rightarrow> DepositWithBlock list
       \<Rightarrow> error + DepositWithBlock list"
  getRefundInformationFromFill ::
    "Fill \<Rightarrow> HubPoolClient \<Rightarrow> (int \<times> int) list \<Rightarrow> int list \<Rightarrow> error + (int \<times> address)"
  updateFillsToRefundWithValidFill ::
    "FillsToRefund \<Rightarrow> Fill \<Rightarrow> int \<Rightarrow> address \<Rightarrow> error + FillsToRefund"
  updateUnfilledDepositsWithMatchedDeposit ::
    "Fill \<Rightarrow> Deposit \<Rightarrow> UnfilledDepositsForOriginChain \<Rightarrow> error + UnfilledDepositsForOriginChain"
  updateFillsToRefundWithSlowFill ::
    "FillsToRefund \<Rightarrow> Fill \<Rightarrow> int \<Rightarrow> address \<Rightarrow> error + FillsToRefund"
  flattenAndFilterUnfilledDepositsByOriginChain ::
    "UnfilledDepositsForOriginChain \<Rightarrow> error + UnfilledDeposit list"
  getFillsInRange ::
    "FillWithBlock list \<Rightarrow> (int \<times> int) list \<Rightarrow> int list \<Rightarrow> error + FillWithBlock list"
  initializeRunningBalancesFromRelayerRepayments ::
    "int \<Rightarrow> HubPoolClient \<Rightarrow> FillsToRefund \<Rightarrow> error + (RunningBalances \<times> RunningBalances)"
  subtractExcessFromPreviousSlowFillsFromRunningBalances ::
    "RunningBalances \<Rightarrow> HubPoolClient \<Rightarrow> FillWithBlock list \<Rightarrow> int list \<Rightarrow> error + RunningBalances"
  updateRunningBalanceForDeposit ::
    "RunningBalances \<Rightarrow> HubPoolClient \<Rightarrow> DepositWithBlock \<Rightarrow> BigNumber \<Rightarrow> error + RunningBalances"
  constructPoolRebalanceLeaves ::
    "int \<Rightarrow> RunningBalances \<Rightarrow> RunningBalances \<Rightarrow> ConfigStoreClient \<Rightarrow> int option
       \<Rightarrow> BigNumberForToken \<Rightarrow> error + PoolRebalanceLeaf list"
  largeNumberToString :: "int \<Rightarrow> string"
  generateMarkdownForRootBundle ::
    "int \<Rightarrow> (int \<times> int) list \<Rightarrow> PoolRebalanceLeaf list \<Rightarrow> string \<Rightarrow> RelayerRefundLeaf list \<Rightarrow> string
       \<Rightarrow> RelayData list \<Rightarrow> string \<Rightarrow> error + string"

section \<open>The mutable world: the logger and the transaction queue\<close>

datatype level = Debug | Info | ErrorLevel

record Transaction =
  txn_chainId :: int
  txn_method :: string
  txn_args :: "string list"
  txn_message :: string
  txn_mrkdwn :: string

record World =
  logs :: "(level \<times> string \<times> string) list"
  transactions :: "Transaction list"

text \<open>
  A method of the Dataworker runs in a world and either throws or returns a value
  and the world it leaves.  Of a log entry the level, the \<^verbatim>\<open>at\<close> tag and the
  message are kept.
\<close>

type_synonym 'a M = "World \<Rightarrow> error + ('a \<times> World)"

definition bindE :: "error + 'a \<Rightarrow> ('a \<Rightarrow> error + 'b) \<Rightarrow> error + 'b" where
  "bindE m k = (case m of Inl e \<Rightarrow> Inl e | Inr x \<Rightarrow> k x)"

definition returnM :: "'a \<Rightarrow> 'a M" where
  "returnM x = (\<lambda>w. Inr (x, w))"

definition throwM :: "error \<Rightarrow> 'a M" where
  "throwM e = (\<lambda>w. Inl e)"

definition bindM :: "'a M \<Rightarrow> ('a \<Rightarrow> 'b M) \<Rightarrow> 'b M" where
  "bindM m k = (\<lambda>w. case m w of Inl e \<Rightarrow> Inl e | Inr (x, w') \<Rightarrow> k x w')"

definition liftE :: "error + 'a \<Rightarrow> 'a M" where
  "liftE m = (\<lambda>w. case m of Inl e \<Rightarrow> Inl e | Inr x \<Rightarrow> Inr (x, w))"

definition logger :: "level \<Rightarrow> string \<Rightarrow> string \<Rightarrow> unit M" where
  "logger lvl at message = (\<lambda>w. Inr ((), w\<lparr>logs := logs w @ [(lvl, at, message)]\<rparr>))"

definition enqueueTransaction :: "Transaction \<Rightarrow> unit M" where
  "enqueueTransaction txn = (\<lambda>w. Inr ((), w\<lparr>transactions := transactions w @ [txn]\<rparr>))"

fun forEachE :: "('s \<Rightarrow> 'a \<Rightarrow> error + 's) \<Rightarrow> 's \<Rightarrow> 'a list \<Rightarrow> error + 's" where
  "forEachE f s [] = Inr s"
| "forEachE f s (x # xs) = bindE (f s x) (\<lambda>s'. forEachE f s' xs)"

fun mapE :: "('a \<Rightarrow> error + 'b) \<Rightarrow> 'a list \<Rightarrow> error + 'b list" where
  "mapE f [] = Inr []"
| "mapE f (x # xs) = bindE (f x) (\<lambda>y. bindE (mapE f xs) (\<lambda>ys. Inr (y # ys)))"


section \<open>Helpers of the language and of the protocol\<close>

text \<open>
  \<^verbatim>\<open>Array.prototype.sort\<close> with a comparator that may throw.  The sort is stable
  and, for a consistent comparator, its result is the one stable sorted
  arrangement whatever the engine's algorithm; it is computed here by insertion,
  an element going before the first element it does not compare greater than.  An
  exception of the comparator leaves the sort.
\<close>

fun insertSorted :: "('a \<Rightarrow> 'a \<Rightarrow> error + int) \<Rightarrow> 'a \<Rightarrow> 'a list \<Rightarrow> error + 'a list" where
  "insertSorted cmp x [] = Inr [x]"
| "insertSorted cmp x (y # ys) =
     bindE (cmp x y) (\<lambda>c.
       if c \<le> 0 then Inr (x # y # ys)
       else bindE (insertSorted cmp x ys) (\<lambda>zs. Inr (y # zs)))"

fun sortWith :: "('a \<Rightarrow> 'a \<Rightarrow> error + int) \<Rightarrow> 'a list \<Rightarrow> error + 'a list" where
  "sortWith cmp [] = Inr []"
| "sortWith cmp (x # xs) = bindE (sortWith cmp xs) (insertSorted cmp x)"

text \<open>
  \<^verbatim>\<open>Array.prototype.slice(start, end)\<close>: a negative index counts from the end,
  and both are clamped to the array.
\<close>

definition slice :: "'a list \<Rightarrow> int \<Rightarrow> int \<Rightarrow> 'a list" where
  "slice xs start end' =
     (let len = int (length xs);
          k = (if start < 0 then max (len + start) 0 else min start len);
          final = (if end' < 0 then max (len + end') 0 else min end' len)
      in take (nat (final - k)) (drop (nat k) xs))"

text \<open>
  Modelled from the spec: \<^verbatim>\<open>getBlockRangeForChain\<close> of \<^verbatim>\<open>DataworkerUtils\<close>,
  whose text is not at hand.  The block ranges are indexed by the protocol's fixed
  chain-ID list: the range of a chain is the one at the chain's position in the
  list, and a chain outside the list, or a position with no range, is an error.
\<close>

fun indexOf :: "int list \<Rightarrow> int \<Rightarrow> nat option" where
  "indexOf [] c = None"
| "indexOf (x # xs) c = (if x = c then Some 0 else map_option Suc (indexOf xs c))"

definition getBlockRangeForChain :: "(int \<times> int) list \<Rightarrow> int \<Rightarrow> int list \<Rightarrow> error + (int \<times> int)" where
  "getBlockRangeForChain blockRange chain chainIdList =
     (case indexOf chainIdList chain of
        None \<Rightarrow> Inl (Error ''Could not find chain in chain ID list'')
      | Some indexForChain \<Rightarrow>
          if indexForChain < length blockRange then Inr (blockRange ! indexForChain)
          else Inl (Error ''Invalid block range for chain''))"

text \<open>
  Modelled from the spec: \<^verbatim>\<open>getNetSendAmountForL1Token\<close> of
  \<^verbatim>\<open>PoolRebalanceUtils\<close>, whose text is not at hand.  The transfer-threshold
  policy: if the magnitude of the running balance reaches the threshold the full
  balance is sent, otherwise nothing is.
\<close>

definition getNetSendAmountForL1Token :: "BigNumber \<Rightarrow> BigNumber \<Rightarrow> BigNumber" where
  "getNetSendAmountForL1Token transferThreshold runningBalance =
     (if \<bar>runningBalance\<bar> \<ge> transferThreshold then runningBalance else 0)"

section \<open>Dataworker: \_loadData\<close>

text \<open>
  The local variables of \<^verbatim>\<open>_loadData\<close> that its loops update.
\<close>

record LoadState =
  unfilledDepositsForOriginChain :: UnfilledDepositsForOriginChain
  fillsToRefund :: FillsToRefund
  deposits :: "DepositWithBlock list"
  allValidFills :: "FillWithBlock list"
  allInvalidFills :: "FillWithBlock list"

definition getSpokePoolClient :: "(int \<rightharpoonup> SpokePoolClient) \<Rightarrow> int \<Rightarrow> error + SpokePoolClient" where
  "getSpokePoolClient spokePoolClients chain =
     (case spokePoolClients chain of None \<Rightarrow> Inl TypeError | Some client \<Rightarrow> Inr client)"

text \<open>
  The callback of \<^verbatim>\<open>getFillsWithBlockForOriginChain(originChainId).forEach\<close>: what
  one fill of the destination client does to the local variables.  Its last part,
  for a fill that matched a deposit and lies inside the block range, is
  \<open>refundFill\<close>: it updates \<^verbatim>\<open>fillsToRefund\<close> and
  \<^verbatim>\<open>unfilledDepositsForOriginChain\<close>, here the pair.
\<close>

definition refundFill ::
  "Utils \<Rightarrow> Dataworker \<Rightarrow> (int \<times> int) list \<Rightarrow> Deposit
     \<Rightarrow> FillsToRefund \<times> UnfilledDepositsForOriginChain \<Rightarrow> FillWithBlock
     \<Rightarrow> error + FillsToRefund \<times> UnfilledDepositsForOriginChain" where
  "refundFill U dw blockRangesForChains matchedDeposit acc fillWithBlock =
     (let fill = Fill.truncate fillWithBlock in
      bindE (getRefundInformationFromFill U fill (hubPoolClient (clients dw)) blockRangesForChains
               (chainIdListForBundleEvaluationBlockNumbers dw)) (\<lambda>(chainToSendRefundTo, repaymentToken).
      bindE (updateFillsToRefundWithValidFill U (fst acc) fill chainToSendRefundTo repaymentToken)
        (\<lambda>fillsToRefund1.
      bindE (updateUnfilledDepositsWithMatchedDeposit U fill matchedDeposit (snd acc)) (\<lambda>unfilled1.
      bindE (if \<not> isSlowRelay fill
             then updateFillsToRefundWithSlowFill U fillsToRefund1 fill chainToSendRefundTo
                    repaymentToken
             else Inr fillsToRefund1) (\<lambda>fillsToRefund2.
      Inr (fillsToRefund2, unfilled1))))))"

definition processFill ::
  "Utils \<Rightarrow> Dataworker \<Rightarrow> (int \<times> int) list \<Rightarrow> SpokePoolClient \<Rightarrow> int \<Rightarrow> LoadState \<Rightarrow> FillWithBlock
     \<Rightarrow> error + LoadState" where
  "processFill U dw blockRangesForChains originClient destinationChain st fillWithBlock =
     bindE (getBlockRangeForChain blockRangesForChains destinationChain
              (chainIdListForBundleEvaluationBlockNumbers dw)) (\<lambda>blockRangeForChain.
     case getDepositForFill originClient fillWithBlock of
       Some matchedDeposit \<Rightarrow>
         let st1 = st\<lparr>allValidFills := allValidFills st @ [fillWithBlock]\<rparr> in
         if blockNumber fillWithBlock > snd blockRangeForChain
            \<or> blockNumber fillWithBlock < fst blockRangeForChain
         then Inr st1
         else
           bindE (refundFill U dw blockRangesForChains matchedDeposit
                    (fillsToRefund st1, unfilledDepositsForOriginChain st1) fillWithBlock)
             (\<lambda>(fillsToRefund2, unfilled1).
           Inr (st1\<lparr>fillsToRefund := fillsToRefund2,
                     unfilledDepositsForOriginChain := unfilled1\<rparr>))
     | None \<Rightarrow> Inr (st\<lparr>allInvalidFills := allInvalidFills st @ [fillWithBlock]\<rparr>))"

text \<open>The body of the loop over destination chains, for one origin chain.\<close>

definition loadDestination ::
  "Utils \<Rightarrow> Dataworker \<Rightarrow> (int \<times> int) list \<Rightarrow> (int \<rightharpoonup> SpokePoolClient) \<Rightarrow> int \<Rightarrow> SpokePoolClient
     \<Rightarrow> LoadState \<Rightarrow> int \<Rightarrow> error + LoadState" where
  "loadDestination U dw blockRangesForChains spokePoolClients originChain originClient st
       destinationChain =
     (if originChain = destinationChain then Inr st
      else
        bindE (getSpokePoolClient spokePoolClients destinationChain) (\<lambda>destinationClient.
        if \<not> SpokePoolClient.isUpdated destinationClient
        then Inl (Error ''destination SpokePoolClient not updated'')
        else
          bindE (getUniqueDepositsInRange U blockRangesForChains originChain destinationChain
                   (chainIdListForBundleEvaluationBlockNumbers dw) originClient (deposits st))
            (\<lambda>uniqueDeposits.
          forEachE (processFill U dw blockRangesForChains originClient destinationChain)
            (st\<lparr>deposits := deposits st @ uniqueDeposits\<rparr>)
            (getFillsWithBlockForOriginChain destinationClient originChain))))"

text \<open>The body of the loop over origin chains.\<close>

definition loadOrigin ::
  "Utils \<Rightarrow> Dataworker \<Rightarrow> (int \<times> int) list \<Rightarrow> (int \<rightharpoonup> SpokePoolClient) \<Rightarrow> int list
     \<Rightarrow> LoadState \<Rightarrow> int \<Rightarrow> error + LoadState" where
  "loadOrigin U dw blockRangesForChains spokePoolClients allChainIds st originChain =
     bindE (getSpokePoolClient spokePoolClients originChain) (\<lambda>originClient.
     if \<not> SpokePoolClient.isUpdated originClient
     then Inl (Error ''origin SpokePoolClient not updated'')
     else
       forEachE (loadDestination U dw blockRangesForChains spokePoolClients originChain originClient)
         st allChainIds)"

text \<open>
  \<^verbatim>\<open>_loadData\<close> returns \<^verbatim>\<open>{ fillsToRefund, deposits, unfilledDeposits,
  allValidFills }\<close>, here the tuple in that order.  The interpolated values of
  error and log messages are left out of the messages.
\<close>

definition loadData ::
  "Utils \<Rightarrow> Dataworker \<Rightarrow> (int \<times> int) list \<Rightarrow> (int \<rightharpoonup> SpokePoolClient)
     \<Rightarrow> (FillsToRefund \<times> DepositWithBlock list \<times> UnfilledDeposit list \<times> FillWithBlock list) M" where
  "loadData U dw blockRangesForChains spokePoolClients =
     (if \<not> HubPoolClient.isUpdated (hubPoolClient (clients dw))
      then throwM (Error ''HubPoolClient not updated'')
      else if \<not> ConfigStoreClient.isUpdated (configStoreClient (clients dw))
      then throwM (Error ''ConfigStoreClient not updated'')
      else if list_ex (\<lambda>chain. spokePoolClients chain = None)
                (chainIdListForBundleEvaluationBlockNumbers dw)
      then throwM (Error ''Missing spoke pool client for chain'')
      else if length blockRangesForChains \<noteq> length (chainIdListForBundleEvaluationBlockNumbers dw)
      then throwM (Error ''Unexpected block range list length'')
      else
        let allChainIds = map fst (spokePoolSigners (clients dw)) in
        bindM (logger Debug ''Dataworker'' ''Loading deposit and fill data'') (\<lambda>_.
        bindM (liftE (forEachE (loadOrigin U dw blockRangesForChains spokePoolClients allChainIds)
                        \<lparr>unfilledDepositsForOriginChain = [], fillsToRefund = [], deposits = [],
                         allValidFills = [], allInvalidFills = []\<rparr>
                        allChainIds)) (\<lambda>st.
        bindM (liftE (flattenAndFilterUnfilledDepositsByOriginChain U
                        (unfilledDepositsForOriginChain st))) (\<lambda>unfilledDeposits.
        bindM (liftE (getFillsInRange U (allInvalidFills st) blockRangesForChains
                        (chainIdListForBundleEvaluationBlockNumbers dw))) (\<lambda>allInvalidFillsInRange.
        bindM (liftE (getFillsInRange U (allValidFills st) blockRangesForChains
                        (chainIdListForBundleEvaluationBlockNumbers dw))) (\<lambda>allValidFillsInRange.
        bindM (logger Debug ''Dataworker'' ''Finished loading spoke pool data'') (\<lambda>_.
        bindM (if length allInvalidFillsInRange > 0
               then logger Info ''Dataworker''
                      ''Finished loading spoke pool data and found some invalid fills in range''
               else returnM ()) (\<lambda>_.
        returnM (fillsToRefund st, deposits st, unfilledDeposits, allValidFills st)))))))))"


section \<open>Dataworker: the three root builders\<close>

text \<open>
  The comparator of the slow relay sort: smaller origin chain ids first, then
  smaller deposit ids.
\<close>

definition compareSlowRelays :: "RelayData \<Rightarrow> RelayData \<Rightarrow> error + int" where
  "compareSlowRelays relayA relayB =
     (if originChainId relayA = originChainId relayB
      then Inr (depositId relayA - depositId relayB)
      else Inr (originChainId relayA - originChainId relayB))"

text \<open>
  \<^verbatim>\<open>buildSlowRelayRoot\<close>.  \<open>slowRelayRootOf\<close> is what the method does with the
  unfilled deposits that \<^verbatim>\<open>_loadData\<close> returns: one leaf for each, the sort, and
  the tree of the sorted leaves.
\<close>

definition slowRelayRootOf :: "Utils \<Rightarrow> UnfilledDeposit list \<Rightarrow> error + RelayData Root" where
  "slowRelayRootOf U unfilledDeposits =
     (let slowRelayLeaves =
            map (\<lambda>d. \<lparr>depositor = depositor (deposit d),
                       recipient = recipient (deposit d),
                       destinationToken = destinationToken (deposit d),
                       amount = amount (deposit d),
                       originChainId = originChainId (deposit d),
                       destinationChainId = destinationChainId (deposit d),
                       realizedLpFeePct = realizedLpFeePct (deposit d),
                       relayerFeePct = relayerFeePct (deposit d),
                       depositId = depositId (deposit d)\<rparr>) unfilledDeposits in
      bindE (sortWith compareSlowRelays slowRelayLeaves) (\<lambda>sortedLeaves.
      Inr \<lparr>leaves = sortedLeaves, tree = buildSlowRelayTree U sortedLeaves\<rparr>))"

definition buildSlowRelayRoot ::
  "Utils \<Rightarrow> Dataworker \<Rightarrow> (int \<times> int) list \<Rightarrow> (int \<rightharpoonup> SpokePoolClient) \<Rightarrow> RelayData Root M" where
  "buildSlowRelayRoot U dw blockRangesForChains spokePoolClients =
     bindM (logger Debug ''Dataworker'' ''Building slow relay root'') (\<lambda>_.
     bindM (loadData U dw blockRangesForChains spokePoolClients)
       (\<lambda>(fillsToRefund', deposits', unfilledDeposits, allValidFills').
     liftE (slowRelayRootOf U unfilledDeposits)))"

definition buildPoolRebalanceRoot ::
  "Utils \<Rightarrow> Dataworker \<Rightarrow> (int \<times> int) list \<Rightarrow> (int \<rightharpoonup> SpokePoolClient) \<Rightarrow> PoolRebalanceRoot M" where
  "buildPoolRebalanceRoot U dw blockRangesForChains spokePoolClients =
     bindM (logger Debug ''Dataworker'' ''Building pool rebalance root'') (\<lambda>_.
     bindM (loadData U dw blockRangesForChains spokePoolClients)
       (\<lambda>(fillsToRefund', deposits', unfilledDeposits, allValidFills').
     bindM (liftE (getBlockRangeForChain blockRangesForChains 1
                     (chainIdListForBundleEvaluationBlockNumbers dw))) (\<lambda>blockRangeForMainnet.
     let endBlockForMainnet = snd blockRangeForMainnet in
     bindM (liftE (initializeRunningBalancesFromRelayerRepayments U endBlockForMainnet
                     (hubPoolClient (clients dw)) fillsToRefund')) (\<lambda>(runningBalances0, realizedLpFees').
     bindM (liftE (subtractExcessFromPreviousSlowFillsFromRunningBalances U runningBalances0
                     (hubPoolClient (clients dw)) allValidFills'
                     (chainIdListForBundleEvaluationBlockNumbers dw))) (\<lambda>runningBalances1.
     bindM (liftE (forEachE (\<lambda>balances d.
                       updateRunningBalanceForDeposit U balances (hubPoolClient (clients dw)) d
                         (amount d * (- 1)))
                     runningBalances1 deposits')) (\<lambda>runningBalances2.
     bindM (liftE (constructPoolRebalanceLeaves U endBlockForMainnet runningBalances2 realizedLpFees'
                     (configStoreClient (clients dw)) (maxL1TokenCountOverride dw)
                     (tokenTransferThreshold dw))) (\<lambda>leaves'.
     returnM \<lparr>leaves = leaves', tree = buildPoolRebalanceLeafTree U leaves',
              runningBalances = runningBalances2, realizedLpFees = realizedLpFees'\<rparr>)))))))"

text \<open>
  The transfer threshold of an L1 token,
  \<^verbatim>\<open>this.tokenTransferThreshold[l1TokenCounterpart] || configStoreClient.getTokenTransferThresholdForBlock(...)\<close>:
  the configured override or the ConfigStore's value.  A configured threshold is a
  \<^verbatim>\<open>BigNumber\<close> object and so always truthy.
\<close>

definition transferThresholdFor :: "Dataworker \<Rightarrow> address \<Rightarrow> int \<Rightarrow> error + BigNumber" where
  "transferThresholdFor dw l1Token endBlockForMainnet =
     (case map_of (tokenTransferThreshold dw) l1Token of
        Some threshold \<Rightarrow> Inr threshold
      | None \<Rightarrow> getTokenTransferThresholdForBlock (configStoreClient (clients dw)) l1Token
                  endBlockForMainnet)"

text \<open>
  The maximal number of refunds of a leaf,
  \<^verbatim>\<open>this.maxRefundCountOverride ? this.maxRefundCountOverride : configStoreClient.getMaxRefundCountForRelayerRefundLeafForBlock(endBlockForMainnet)\<close>:
  an override of zero is falsy, and the ConfigStore is asked.
\<close>

definition maxRefundCountFor :: "Dataworker \<Rightarrow> int \<Rightarrow> error + int" where
  "maxRefundCountFor dw endBlockForMainnet =
     (case maxRefundCountOverride dw of
        Some n \<Rightarrow>
          if n \<noteq> 0 then Inr n
          else getMaxRefundCountForRelayerRefundLeafForBlock (configStoreClient (clients dw))
                 endBlockForMainnet
      | None \<Rightarrow> getMaxRefundCountForRelayerRefundLeafForBlock (configStoreClient (clients dw))
                  endBlockForMainnet)"

text \<open>
  \<^verbatim>\<open>_getAmountToReturnForRelayerRefundLeaf\<close>.  The running balance of a chain
  that has none is a type error when read; that of a token that has none is
  \<^verbatim>\<open>undefined\<close> and a type error once the net send amount is computed from it.
\<close>

definition getAmountToReturnForRelayerRefundLeaf ::
  "Dataworker \<Rightarrow> int \<Rightarrow> int \<Rightarrow> address \<Rightarrow> RunningBalances \<Rightarrow> error + BigNumber" where
  "getAmountToReturnForRelayerRefundLeaf dw endBlockForMainnet leafChainId leafToken
       poolRebalanceRunningBalances =
     bindE (getL1TokenCounterpartAtBlock (hubPoolClient (clients dw)) leafChainId leafToken
              endBlockForMainnet) (\<lambda>l1TokenCounterpart.
     bindE (case map_of poolRebalanceRunningBalances leafChainId of
              None \<Rightarrow> Inl TypeError
            | Some balances \<Rightarrow> Inr (map_of balances l1TokenCounterpart)) (\<lambda>runningBalanceForLeaf.
     bindE (transferThresholdFor dw l1TokenCounterpart endBlockForMainnet) (\<lambda>transferThreshold.
     case runningBalanceForLeaf of
       None \<Rightarrow> Inl TypeError
     | Some balance \<Rightarrow>
         let netSendAmountForLeaf = getNetSendAmountForL1Token transferThreshold balance in
         Inr (if netSendAmountForLeaf * (- 1) > 0 then netSendAmountForLeaf * (- 1) else 0))))"

text \<open>
  The comparator of the refund address sort: larger refunds first, then smaller
  addresses.  Each address is carried with its refund \<^verbatim>\<open>refunds[address]\<close>.
\<close>

fun compareRefundAddresses ::
  "Utils \<Rightarrow> address \<times> BigNumber \<Rightarrow> address \<times> BigNumber \<Rightarrow> error + int" where
  "compareRefundAddresses U (addressA, refundA) (addressB, refundB) =
     (if refundA > refundB then Inr (- 1)
      else if refundA < refundB then Inr 1
      else
        let sortOutput = compareAddresses U addressA addressB in
        if sortOutput \<noteq> 0 then Inr sortOutput
        else Inl (Error ''Unexpected matching address''))"

text \<open>
  The loop \<^verbatim>\<open>for (let i = 0; i < sortedRefundAddresses.length; i += maxRefundCount)\<close>
  that pushes one leaf for each chunk of the sorted refunds.  It need not end, so
  it is a partial function: \<open>None\<close> is the loop that never ends.
\<close>

partial_function (option) refundLeafLoop ::
  "(address \<times> BigNumber) list \<Rightarrow> BigNumber \<Rightarrow> int \<Rightarrow> address \<Rightarrow> int \<Rightarrow> int \<Rightarrow> RelayerRefundLeaf list
     \<Rightarrow> RelayerRefundLeaf list option" where
  "refundLeafLoop sortedRefunds amountToReturn' repaymentChain l2Token maxRefundCount i
       relayerRefundLeaves =
     (if i < int (length sortedRefunds) then
        refundLeafLoop sortedRefunds amountToReturn' repaymentChain l2Token maxRefundCount
          (i + maxRefundCount)
          (relayerRefundLeaves @
             [\<lparr>groupIndex = Some i,
               amountToReturn = (if i = 0 then amountToReturn' else 0),
               chainId = repaymentChain,
               refundAmounts = map snd (slice sortedRefunds i (i + maxRefundCount)),
               leafId = 0,
               l2TokenAddress = l2Token,
               refundAddresses = map fst (slice sortedRefunds i (i + maxRefundCount))\<rparr>])
      else Some relayerRefundLeaves)"

declare refundLeafLoop.simps [code]

text \<open>
  The body of the loops over \<^verbatim>\<open>Object.keys(fillsToRefund)\<close> and
  \<^verbatim>\<open>Object.keys(fillsToRefund[repaymentChainId])\<close>: the leaves of one refund
  group, pushed after the leaves so far.
\<close>

definition refundLeavesForGroup ::
  "Utils \<Rightarrow> Dataworker \<Rightarrow> int \<Rightarrow> RunningBalances \<Rightarrow> int \<Rightarrow> RelayerRefundLeaf list
     \<Rightarrow> address \<times> RefundGroup \<Rightarrow> error + RelayerRefundLeaf list" where
  "refundLeavesForGroup U dw endBlockForMainnet poolRunningBalances repaymentChain relayerRefundLeaves
       entry =
     (let l2Token = fst entry; refunds' = refunds (snd entry) in
      bindE (sortWith (compareRefundAddresses U) refunds') (\<lambda>sortedRefunds.
      bindE (getAmountToReturnForRelayerRefundLeaf dw endBlockForMainnet repaymentChain l2Token
               poolRunningBalances) (\<lambda>amountToReturn'.
      bindE (maxRefundCountFor dw endBlockForMainnet) (\<lambda>maxRefundCount.
      case refundLeafLoop sortedRefunds amountToReturn' repaymentChain l2Token maxRefundCount 0
             relayerRefundLeaves of
        None \<Rightarrow> Inl Diverges
      | Some leaves' \<Rightarrow> Inr leaves'))))"

definition refundLeavesForChain ::
  "Utils \<Rightarrow> Dataworker \<Rightarrow> int \<Rightarrow> RunningBalances \<Rightarrow> RelayerRefundLeaf list
     \<Rightarrow> int \<times> (address \<times> RefundGroup) list \<Rightarrow> error + RelayerRefundLeaf list" where
  "refundLeavesForChain U dw endBlockForMainnet poolRunningBalances relayerRefundLeaves chainEntry =
     forEachE (refundLeavesForGroup U dw endBlockForMainnet poolRunningBalances (fst chainEntry))
       relayerRefundLeaves (snd chainEntry)"

text \<open>
  The body of the loops over the pool rebalance leaves and their net send
  amounts: a leaf with no refunds for a negative net send amount whose chain and
  token have no leaf yet.  Where the leaf has no token at the index of the net
  send amount, \<^verbatim>\<open>leaf.l1Tokens[index]\<close> is \<^verbatim>\<open>undefined\<close>, and the HubPool client
  is asked about it all the same.
\<close>

definition returnLeafForNetSendAmount ::
  "Dataworker \<Rightarrow> int \<Rightarrow> RunningBalances \<Rightarrow> PoolRebalanceLeaf \<Rightarrow> RelayerRefundLeaf list
     \<Rightarrow> BigNumber \<times> nat \<Rightarrow> error + RelayerRefundLeaf list" where
  "returnLeafForNetSendAmount dw endBlockForMainnet poolRunningBalances leaf relayerRefundLeaves
       entry =
     (let netSendAmount = fst entry; index = snd entry in
      if netSendAmount \<ge> 0 then Inr relayerRefundLeaves
      else
        let l1Token = (if index < length (l1Tokens leaf) then Some (l1Tokens leaf ! index) else None) in
        bindE (getDestinationTokenForL1TokenDestinationChainId (hubPoolClient (clients dw)) l1Token
                 (PoolRebalanceLeaf.chainId leaf)) (\<lambda>l2TokenCounterpart.
        if list_ex (\<lambda>relayerRefundLeaf.
                      chainId relayerRefundLeaf = PoolRebalanceLeaf.chainId leaf
                      \<and> l2TokenAddress relayerRefundLeaf = l2TokenCounterpart) relayerRefundLeaves
        then Inr relayerRefundLeaves
        else
          bindE (getAmountToReturnForRelayerRefundLeaf dw endBlockForMainnet
                   (PoolRebalanceLeaf.chainId leaf) l2TokenCounterpart poolRunningBalances)
            (\<lambda>amountToReturn'.
          Inr (relayerRefundLeaves @
                 [\<lparr>groupIndex = Some 0,
                   amountToReturn = amountToReturn',
                   chainId = PoolRebalanceLeaf.chainId leaf,
                   refundAmounts = [],
                   leafId = 0,
                   l2TokenAddress = l2TokenCounterpart,
                   refundAddresses = []\<rparr>]))))"

definition returnLeavesForPoolLeaf ::
  "Dataworker \<Rightarrow> int \<Rightarrow> RunningBalances \<Rightarrow> RelayerRefundLeaf list \<Rightarrow> PoolRebalanceLeaf
     \<Rightarrow> error + RelayerRefundLeaf list" where
  "returnLeavesForPoolLeaf dw endBlockForMainnet poolRunningBalances relayerRefundLeaves leaf =
     forEachE (returnLeafForNetSendAmount dw endBlockForMainnet poolRunningBalances leaf)
       relayerRefundLeaves
       (zip (netSendAmounts leaf) [0 ..< length (netSendAmounts leaf)])"

text \<open>
  The comparator of the final sort: chain id, then token address, then group
  index, and an error if all three agree.  The difference of two group indices of
  which one is absent is \<^verbatim>\<open>NaN\<close>, which a sort reads as zero.
\<close>

definition compareRefundLeaves :: "Utils \<Rightarrow> RelayerRefundLeaf \<Rightarrow> RelayerRefundLeaf \<Rightarrow> error + int" where
  "compareRefundLeaves U leafA leafB =
     (if chainId leafA \<noteq> chainId leafB then Inr (chainId leafA - chainId leafB)
      else if compareAddresses U (l2TokenAddress leafA) (l2TokenAddress leafB) \<noteq> 0
      then Inr (compareAddresses U (l2TokenAddress leafA) (l2TokenAddress leafB))
      else if groupIndex leafA \<noteq> groupIndex leafB
      then Inr (case (groupIndex leafA, groupIndex leafB) of
                  (Some a, Some b) \<Rightarrow> a - b
                | _ \<Rightarrow> 0)
      else Inl (Error ''Unexpected leaf group indices match''))"

text \<open>
  The last step: the sorted leaves lose their group index and take their position
  as leaf id.
\<close>

definition indexLeaves :: "RelayerRefundLeaf list \<Rightarrow> RelayerRefundLeaf list" where
  "indexLeaves sortedLeaves =
     map (\<lambda>(leaf, i). leaf\<lparr>groupIndex := None, leafId := int i\<rparr>)
       (zip sortedLeaves [0 ..< length sortedLeaves])"

text \<open>
  \<^verbatim>\<open>buildRelayerRefundRoot\<close> in its parts.  \<open>relayerRefundLeavesOf\<close> is the two
  loops that push leaves: those over the refund groups of \<^verbatim>\<open>fillsToRefund\<close> and
  those over the pool rebalance leaves.  \<open>buildRelayerRefundLeaves\<close> is the method
  up to there, with all that the loops are given.  \<open>relayerRefundRootOf\<close> is the
  rest: the final sort, the leaf ids and the tree.
\<close>

definition relayerRefundLeavesOf ::
  "Utils \<Rightarrow> Dataworker \<Rightarrow> int \<Rightarrow> FillsToRefund \<Rightarrow> PoolRebalanceRoot
     \<Rightarrow> error + RelayerRefundLeaf list" where
  "relayerRefundLeavesOf U dw endBlockForMainnet fillsToRefund' poolRebalanceRoot' =
     bindE (forEachE (refundLeavesForChain U dw endBlockForMainnet
                        (PoolRebalanceRoot.runningBalances poolRebalanceRoot'))
              [] fillsToRefund') (\<lambda>refundLeaves.
     forEachE (returnLeavesForPoolLeaf dw endBlockForMainnet
                 (PoolRebalanceRoot.runningBalances poolRebalanceRoot'))
       refundLeaves (leaves poolRebalanceRoot'))"

definition buildRelayerRefundLeaves ::
  "Utils \<Rightarrow> Dataworker \<Rightarrow> (int \<times> int) list \<Rightarrow> (int \<rightharpoonup> SpokePoolClient)
     \<Rightarrow> RelayerRefundLeaf list M" where
  "buildRelayerRefundLeaves U dw blockRangesForChains spokePoolClients =
     bindM (logger Debug ''Dataworker'' ''Building relayer refund root'') (\<lambda>_.
     bindM (liftE (getBlockRangeForChain blockRangesForChains 1
                     (chainIdListForBundleEvaluationBlockNumbers dw))) (\<lambda>blockRangeForMainnet.
     let endBlockForMainnet = snd blockRangeForMainnet in
     bindM (loadData U dw blockRangesForChains spokePoolClients)
       (\<lambda>(fillsToRefund', deposits', unfilledDeposits, allValidFills').
     bindM (buildPoolRebalanceRoot U dw blockRangesForChains spokePoolClients) (\<lambda>poolRebalanceRoot'.
     liftE (relayerRefundLeavesOf U dw endBlockForMainnet fillsToRefund' poolRebalanceRoot')))))"

definition relayerRefundRootOf :: "Utils \<Rightarrow> RelayerRefundLeaf list \<Rightarrow> error + RelayerRefundLeaf Root" where
  "relayerRefundRootOf U relayerRefundLeaves =
     bindE (sortWith (compareRefundLeaves U) relayerRefundLeaves) (\<lambda>sortedLeaves.
     let indexedLeaves = indexLeaves sortedLeaves in
     Inr \<lparr>leaves = indexedLeaves, tree = buildRelayerRefundTree U indexedLeaves\<rparr>)"

definition buildRelayerRefundRoot ::
  "Utils \<Rightarrow> Dataworker \<Rightarrow> (int \<times> int) list \<Rightarrow> (int \<rightharpoonup> SpokePoolClient) \<Rightarrow> RelayerRefundLeaf Root M" where
  "buildRelayerRefundRoot U dw blockRangesForChains spokePoolClients =
     bindM (buildRelayerRefundLeaves U dw blockRangesForChains spokePoolClients)
       (\<lambda>relayerRefundLeaves.
     liftE (relayerRefundRootOf U relayerRefundLeaves))"

section \<open>Dataworker: validateRootBundle\<close>

text \<open>
  \<^verbatim>\<open>_submitDisputeWithMrkdwn\<close> enqueues a \<^verbatim>\<open>disputeRootBundle\<close> transaction for
  the HubPool contract.  The multi-caller sink is a queue: enqueueing appends and
  does not fail, so the \<^verbatim>\<open>catch\<close> branch of the source, which would log the
  failure, is never taken.  The message is kept without its emoji.
\<close>

definition submitDisputeWithMrkdwn :: "int \<Rightarrow> string \<Rightarrow> unit M" where
  "submitDisputeWithMrkdwn hubPoolChainId mrkdwn =
     enqueueTransaction
       \<lparr>txn_chainId = hubPoolChainId,
        txn_method = ''disputeRootBundle'',
        txn_args = [],
        txn_message = ''Disputed pending root bundle'',
        txn_mrkdwn = mrkdwn\<rparr>"

definition shortenHexString :: "string \<Rightarrow> string" where
  "shortenHexString hexString = take 10 hexString"

text \<open>
  A number in a template literal prints as \<^verbatim>\<open>Number.prototype.toString\<close> has
  it, and \<^verbatim>\<open>JSON.stringify\<close> of an array of numbers prints them so between
  brackets, separated by commas.  A safe integer prints in decimal.  Beyond the
  safe integers a number prints with the fewest digits that read back as the same
  double, and in exponent form from \<open>10^21\<close> on; that print is the function
  \<open>largeNumberToString\<close> of the environment.
\<close>

function natToString :: "nat \<Rightarrow> string" where
  "natToString n =
     (if n < 10 then [''0123456789'' ! n]
      else natToString (n div 10) @ [''0123456789'' ! (n mod 10)])"
  by pat_completeness auto
termination
  by (relation "measure id") auto

declare natToString.simps [simp del]

definition decimalString :: "int \<Rightarrow> string" where
  "decimalString n = (if n < 0 then ''-'' @ natToString (nat (- n)) else natToString (nat n))"

definition MAX_SAFE_INTEGER :: int where
  "MAX_SAFE_INTEGER = 2 ^ 53 - 1"

definition numberToString :: "Utils \<Rightarrow> int \<Rightarrow> string" where
  "numberToString U n =
     (if - MAX_SAFE_INTEGER \<le> n \<and> n \<le> MAX_SAFE_INTEGER then decimalString n
      else largeNumberToString U n)"

fun joinWithCommas :: "string list \<Rightarrow> string" where
  "joinWithCommas [] = []"
| "joinWithCommas [s] = s"
| "joinWithCommas (s # t # ss) = s @ '','' @ joinWithCommas (t # ss)"

definition JSON_stringify :: "Utils \<Rightarrow> int list \<Rightarrow> string" where
  "JSON_stringify U ns = ''['' @ joinWithCommas (map (numberToString U) ns) @ '']''"

definition NL :: string where
  "NL = [CHR 0x0A]"

definition TAB :: string where
  "TAB = [CHR 0x09]"

definition generateMarkdownForDispute :: "Utils \<Rightarrow> RootBundle \<Rightarrow> string" where
  "generateMarkdownForDispute U pendingRootBundle =
     ''Disputed pending root bundle:'' @
     NL @ TAB @ ''PoolRebalance leaf count: '' @
       numberToString U (unclaimedPoolRebalanceLeafCount pendingRootBundle) @
     NL @ TAB @ ''PoolRebalance root: '' @ shortenHexString (poolRebalanceRoot pendingRootBundle) @
     NL @ TAB @ ''RelayerRefund root: '' @ shortenHexString (relayerRefundRoot pendingRootBundle) @
     NL @ TAB @ ''SlowRelay root: '' @ shortenHexString (slowRelayRoot pendingRootBundle) @
     NL @ TAB @ ''Proposer: '' @ shortenHexString (proposer pendingRootBundle)"

text \<open>
  \<^verbatim>\<open>getBlockRangePretty\<close> prints, for each chain of the fixed list, the entry of
  its argument at the chain's position; a position with no entry prints as
  \<^verbatim>\<open>undefined\<close>.
\<close>

definition getBlockRangePretty ::
  "Utils \<Rightarrow> Dataworker \<Rightarrow> ('a \<Rightarrow> string) \<Rightarrow> 'a list \<Rightarrow> string" where
  "getBlockRangePretty U dw stringify blockRange =
     concat (map (\<lambda>(chain, index).
                    NL @ TAB @ TAB @ numberToString U chain @ '': '' @
                    (if index < length blockRange then stringify (blockRange ! index)
                     else ''undefined''))
               (zip (chainIdListForBundleEvaluationBlockNumbers dw)
                  [0 ..< length (chainIdListForBundleEvaluationBlockNumbers dw)]))"

definition generateMarkdownForDisputeInvalidBundleBlocks ::
  "Utils \<Rightarrow> Dataworker \<Rightarrow> RootBundle \<Rightarrow> (int \<times> int) list \<Rightarrow> int list \<Rightarrow> string" where
  "generateMarkdownForDisputeInvalidBundleBlocks U dw pendingRootBundle widestExpectedBlockRange
       buffers =
     ''Disputed pending root bundle because of invalid bundle blocks:'' @
     NL @ TAB @ ''*Widest possible expected block range*:'' @
       getBlockRangePretty U dw (\<lambda>(a, b). JSON_stringify U [a, b]) widestExpectedBlockRange @
     NL @ TAB @ ''*Buffers to end blocks*:'' @
       getBlockRangePretty U dw (numberToString U) buffers @
     NL @ TAB @ ''*Pending end blocks*:'' @
       getBlockRangePretty U dw (numberToString U) (bundleEvaluationBlockNumbers pendingRootBundle)"

text \<open>
  \<^verbatim>\<open>_getWidestPossibleExpectedBlockRange\<close>: for each chain of the fixed list, the
  next bundle start block and the latest block of the chain's provider.  A chain
  with no signer is a type error.
\<close>

definition getWidestPossibleExpectedBlockRange :: "Dataworker \<Rightarrow> error + (int \<times> int) list" where
  "getWidestPossibleExpectedBlockRange dw =
     bindE (mapE (\<lambda>chain. case map_of (spokePoolSigners (clients dw)) chain of
                             None \<Rightarrow> Inl TypeError
                           | Some getBlockNumber \<Rightarrow> getBlockNumber)
              (chainIdListForBundleEvaluationBlockNumbers dw)) (\<lambda>latestBlockNumbers.
     mapE (\<lambda>(chain, latest).
             bindE (getNextBundleStartBlockNumber (hubPoolClient (clients dw))
                      (chainIdListForBundleEvaluationBlockNumbers dw)
                      (latestBlockNumber (hubPoolClient (clients dw))) chain) (\<lambda>start.
             Inr (start, latest)))
       (zip (chainIdListForBundleEvaluationBlockNumbers dw) latestBlockNumbers))"

text \<open>
  \<^verbatim>\<open>_constructSpokePoolClientsForBlockAndUpdate\<close>: one updated client for each
  chain of the fixed list, keyed by the chain; of two entries with one key
  \<^verbatim>\<open>Object.fromEntries\<close> keeps the later.
\<close>

definition constructSpokePoolClientsForBlockAndUpdate ::
  "Dataworker \<Rightarrow> int \<Rightarrow> error + (int \<rightharpoonup> SpokePoolClient)" where
  "constructSpokePoolClientsForBlockAndUpdate dw latestMainnetBlock =
     bindE (mapE (\<lambda>chain.
                    bindE (spokePoolClientForBlock (clients dw) chain latestMainnetBlock) (\<lambda>client.
                    Inr (chain, client)))
              (chainIdListForBundleEvaluationBlockNumbers dw)) (\<lambda>entries.
     Inr (map_of (rev entries)))"

text \<open>
  The last part of \<^verbatim>\<open>validateRootBundle\<close>, from the block ranges implied by the
  pending end blocks on: the three roots are rebuilt over these ranges and
  compared with the pending ones.
\<close>

text \<open>
  The block ranges implied by the pending end blocks: for each chain of the fixed
  list, from the expected start block to the pending end block.
\<close>

definition impliedBlockRanges :: "RootBundle \<Rightarrow> (int \<times> int) list \<Rightarrow> (int \<times> int) list" where
  "impliedBlockRanges pendingRootBundle widestPossibleExpectedBlockRange =
     map (\<lambda>(blockRange, index).
            (fst blockRange, bundleEvaluationBlockNumbers pendingRootBundle ! index))
       (zip widestPossibleExpectedBlockRange [0 ..< length widestPossibleExpectedBlockRange])"

definition submitDisputeWithRoots ::
  "Utils \<Rightarrow> int \<Rightarrow> RootBundle \<Rightarrow> (int \<times> int) list \<Rightarrow> PoolRebalanceRoot \<Rightarrow> RelayerRefundLeaf Root
     \<Rightarrow> RelayData Root \<Rightarrow> unit M" where
  "submitDisputeWithRoots U hubPoolChainId pendingRootBundle blockRangesImpliedByBundleEndBlocks
       expectedPoolRebalanceRoot expectedRelayerRefundRoot expectedSlowRelayRoot =
     bindM (liftE (generateMarkdownForRootBundle U hubPoolChainId blockRangesImpliedByBundleEndBlocks
                     (leaves expectedPoolRebalanceRoot) (tree expectedPoolRebalanceRoot)
                     (leaves expectedRelayerRefundRoot) (tree expectedRelayerRefundRoot)
                     (leaves expectedSlowRelayRoot) (tree expectedSlowRelayRoot))) (\<lambda>rootsMrkdwn.
     submitDisputeWithMrkdwn hubPoolChainId
       (generateMarkdownForDispute U pendingRootBundle @ NL @ rootsMrkdwn))"

definition validateRebuiltRoots ::
  "Utils \<Rightarrow> Dataworker \<Rightarrow> int \<Rightarrow> RootBundle \<Rightarrow> (int \<times> int) list \<Rightarrow> unit M" where
  "validateRebuiltRoots U dw hubPoolChainId pendingRootBundle widestPossibleExpectedBlockRange =
     (let blockRangesImpliedByBundleEndBlocks =
            impliedBlockRanges pendingRootBundle widestPossibleExpectedBlockRange in
      bindM (logger Debug ''Dataworker#validate'' ''Implied bundle ranges are valid'') (\<lambda>_.
      bindM (liftE (getBlockRangeForChain blockRangesImpliedByBundleEndBlocks 1
                      (chainIdListForBundleEvaluationBlockNumbers dw))) (\<lambda>blockRangeForMainnet.
      let endBlockForMainnet = snd blockRangeForMainnet in
      bindM (logger Debug ''Dataworker#validate''
               ''Constructing spoke pool clients for end mainnet block in bundle range'') (\<lambda>_.
      bindM (liftE (constructSpokePoolClientsForBlockAndUpdate dw endBlockForMainnet))
        (\<lambda>spokePoolClients.
      bindM (buildPoolRebalanceRoot U dw blockRangesImpliedByBundleEndBlocks spokePoolClients)
        (\<lambda>expectedPoolRebalanceRoot.
      bindM (buildRelayerRefundRoot U dw blockRangesImpliedByBundleEndBlocks spokePoolClients)
        (\<lambda>expectedRelayerRefundRoot.
      bindM (buildSlowRelayRoot U dw blockRangesImpliedByBundleEndBlocks spokePoolClients)
        (\<lambda>expectedSlowRelayRoot.
      if int (length (leaves expectedPoolRebalanceRoot))
           \<noteq> unclaimedPoolRebalanceLeafCount pendingRootBundle
         \<or> tree expectedPoolRebalanceRoot \<noteq> poolRebalanceRoot pendingRootBundle
      then
        bindM (logger Debug ''Dataworker#validate''
                 ''Unexpected pool rebalance root, submitting dispute'') (\<lambda>_.
        submitDisputeWithRoots U hubPoolChainId pendingRootBundle blockRangesImpliedByBundleEndBlocks
          expectedPoolRebalanceRoot expectedRelayerRefundRoot expectedSlowRelayRoot)
      else if tree expectedRelayerRefundRoot \<noteq> relayerRefundRoot pendingRootBundle
      then
        bindM (logger Debug ''Dataworker#validate''
                 ''Unexpected relayer refund root, submitting dispute'') (\<lambda>_.
        submitDisputeWithRoots U hubPoolChainId pendingRootBundle blockRangesImpliedByBundleEndBlocks
          expectedPoolRebalanceRoot expectedRelayerRefundRoot expectedSlowRelayRoot)
      else if tree expectedSlowRelayRoot \<noteq> slowRelayRoot pendingRootBundle
      then
        bindM (logger Debug ''Dataworker#validate''
                 ''Unexpected slow relay root, submitting dispute'') (\<lambda>_.
        submitDisputeWithRoots U hubPoolChainId pendingRootBundle blockRangesImpliedByBundleEndBlocks
          expectedPoolRebalanceRoot expectedRelayerRefundRoot expectedSlowRelayRoot)
      else
        logger Debug ''Dataworker#validate'' ''Pending root bundle matches with expected''))))))))"

text \<open>
  The middle part of \<^verbatim>\<open>validateRootBundle\<close>: the pending end blocks are checked
  against the widest possible expected block range.  Where a block is compared
  with the range at its index, the two lists have just been found of one length,
  and there is one buffer for each chain of the fixed list, as there is one range.
  \<open>endBlockBuffersOf\<close> is the constant \<^verbatim>\<open>endBlockBuffers\<close> of the source: the
  configured buffer of each chain, or zero.
\<close>

definition endBlockBuffersOf :: "Dataworker \<Rightarrow> int list" where
  "endBlockBuffersOf dw =
     map (\<lambda>chain. case map_of (blockRangeEndBlockBuffer dw) chain of
                     Some buffer \<Rightarrow> buffer
                   | None \<Rightarrow> 0)
       (chainIdListForBundleEvaluationBlockNumbers dw)"

definition validateBundleBlocks :: "Utils \<Rightarrow> Dataworker \<Rightarrow> int \<Rightarrow> RootBundle \<Rightarrow> unit M" where
  "validateBundleBlocks U dw hubPoolChainId pendingRootBundle =
     bindM (liftE (getWidestPossibleExpectedBlockRange dw)) (\<lambda>widestPossibleExpectedBlockRange.
     let pendingEndBlocks =
           zip (bundleEvaluationBlockNumbers pendingRootBundle)
             [0 ..< length (bundleEvaluationBlockNumbers pendingRootBundle)] in
     if length (bundleEvaluationBlockNumbers pendingRootBundle)
          \<noteq> length widestPossibleExpectedBlockRange
     then
       bindM (logger Debug ''Dataworker#validate''
                ''Unexpected bundle block range length, disputing'') (\<lambda>_.
       submitDisputeWithMrkdwn hubPoolChainId
         ''Disputed pending root bundle with incorrect bundle block range length'')
     else
       let endBlockBuffers = endBlockBuffersOf dw in
       if list_ex (\<lambda>(block, index). block < fst (widestPossibleExpectedBlockRange ! index))
            pendingEndBlocks
       then
         bindM (logger Debug ''Dataworker#validate''
                  ''A bundle end block is < expected start block, submitting dispute'') (\<lambda>_.
         submitDisputeWithMrkdwn hubPoolChainId
           (generateMarkdownForDisputeInvalidBundleBlocks U dw pendingRootBundle
              widestPossibleExpectedBlockRange endBlockBuffers))
       else if list_ex (\<lambda>(block, index). block > snd (widestPossibleExpectedBlockRange ! index))
                 pendingEndBlocks
       then
         if list_ex (\<lambda>(block, index).
                       block > snd (widestPossibleExpectedBlockRange ! index) + endBlockBuffers ! index)
              pendingEndBlocks
         then
           bindM (logger Debug ''Dataworker#validate''
                    ''A bundle end block is > latest block + buffer for its chain, submitting dispute'')
             (\<lambda>_.
           submitDisputeWithMrkdwn hubPoolChainId
             (generateMarkdownForDisputeInvalidBundleBlocks U dw pendingRootBundle
                widestPossibleExpectedBlockRange endBlockBuffers))
         else
           logger Debug ''Dataworker#validate''
             ''A bundle end block is > latest block but within buffer, skipping''
       else
         validateRebuiltRoots U dw hubPoolChainId pendingRootBundle widestPossibleExpectedBlockRange)"

text \<open>
  \<^verbatim>\<open>validateRootBundle\<close>, from its start to the check of the empty pool rebalance
  root.
\<close>

definition validateRootBundle :: "Utils \<Rightarrow> Dataworker \<Rightarrow> unit M" where
  "validateRootBundle U dw =
     (if \<not> HubPoolClient.isUpdated (hubPoolClient (clients dw))
      then throwM (Error ''HubPoolClient not updated'')
      else
        bindM (liftE (getNetworkChainId (hubPoolClient (clients dw)))) (\<lambda>hubPoolChainId.
        if \<not> hasPendingProposal (hubPoolClient (clients dw))
        then logger Debug ''Dataworker#validate'' ''No pending proposal, nothing to validate''
        else
          let pendingRootBundle = getPendingRootBundleProposal (hubPoolClient (clients dw)) in
          bindM (logger Debug ''Dataworker#validate'' ''Found pending proposal'') (\<lambda>_.
          if currentTime (hubPoolClient (clients dw)) > challengePeriodEndTimestamp pendingRootBundle
          then logger Debug ''Dataworke#validater'' ''Challenge period passed, cannot dispute''
          else if poolRebalanceRoot pendingRootBundle = EMPTY_MERKLE_ROOT U
          then
            bindM (logger Debug ''Dataworker#validate''
                     ''Empty pool rebalance root, submitting dispute'') (\<lambda>_.
            submitDisputeWithMrkdwn hubPoolChainId
              ''Disputed pending root bundle with empty pool rebalance root'')
          else validateBundleBlocks U dw hubPoolChainId pendingRootBundle)))"


section \<open>Notions used in the statements\<close>

text \<open>
  The parts of a string that \<^verbatim>\<open>parseInt\<close> reads: a sign is nothing, a plus or a
  minus, and a minus makes the number negative; a numeral of a radix ends where
  the string ends or goes on with no digit of the radix; and a string starts a
  number anew when it starts with white space or with a sign.
\<close>

definition isSign :: "jsString \<Rightarrow> bool" where
  "isSign sg = (sg = [] \<or> sg = codeUnits ''+'' \<or> sg = codeUnits ''-'')"

definition signOf :: "jsString \<Rightarrow> int" where
  "signOf sg = (if sg = codeUnits ''-'' then - 1 else 1)"

definition endsNumeral :: "int \<Rightarrow> jsString \<Rightarrow> bool" where
  "endsNumeral radix rest = (rest = [] \<or> \<not> isDigitOf radix (hd rest))"

definition startsNumber :: "jsString \<Rightarrow> bool" where
  "startsNumber t =
     (t \<noteq> [] \<and> (isWhiteSpace (hd t) \<or> hd t = of_char CHR ''+'' \<or> hd t = of_char CHR ''-''))"

text \<open>
  A method is independent of the world when what it returns or throws does not
  depend on the log and the transaction queue it starts from.  It is repeatable
  when a second call, made in the world that a first call left, returns what the
  first call returned.
\<close>

definition worldIndependent :: "'a M \<Rightarrow> bool" where
  "worldIndependent m = (\<forall>w1 w2. map_sum id fst (m w1) = map_sum id fst (m w2))"

definition repeatable :: "'a M \<Rightarrow> bool" where
  "repeatable m = (\<forall>w first w1. m w = Inr (first, w1) \<longrightarrow> (\<exists>w2. m w1 = Inr (first, w2)))"

text \<open>
  The keys of the slow relay sort: the origin chain and the deposit id of a leaf,
  and of the unfilled deposit that a leaf is made from.
\<close>

definition slowRelayKey :: "RelayData \<Rightarrow> int \<times> int" where
  "slowRelayKey leaf = (originChainId leaf, depositId leaf)"

definition unfilledDepositKey :: "UnfilledDeposit \<Rightarrow> int \<times> int" where
  "unfilledDepositKey d = (originChainId (deposit d), depositId (deposit d))"

text \<open>
  The order of the slow relay leaves: by origin chain id, then by deposit id.
\<close>

definition slowRelayBefore :: "RelayData \<Rightarrow> RelayData \<Rightarrow> bool" where
  "slowRelayBefore a b =
     (originChainId a < originChainId b
      \<or> (originChainId a = originChainId b \<and> depositId a \<le> depositId b))"

text \<open>
  A three-way comparison of a total preorder: the sign turns with the arguments,
  and not-greater is transitive.
\<close>

definition isComparator :: "('a \<Rightarrow> 'a \<Rightarrow> int) \<Rightarrow> bool" where
  "isComparator cmp =
     ((\<forall>a b. (cmp a b < 0) = (0 < cmp b a)) \<and>
      (\<forall>a b c. cmp a b \<le> 0 \<and> cmp b c \<le> 0 \<longrightarrow> cmp a c \<le> 0))"

text \<open>
  The order of the relayer refund leaves under construction: by chain id, then
  by token address, then by group index.
\<close>

definition refundLeafBefore :: "Utils \<Rightarrow> RelayerRefundLeaf \<Rightarrow> RelayerRefundLeaf \<Rightarrow> bool" where
  "refundLeafBefore U a b =
     (chainId a < chainId b
      \<or> (chainId a = chainId b
          \<and> (compareAddresses U (l2TokenAddress a) (l2TokenAddress b) < 0
              \<or> (compareAddresses U (l2TokenAddress a) (l2TokenAddress b) = 0
                  \<and> (case (groupIndex a, groupIndex b) of
                        (Some i, Some j) \<Rightarrow> i < j
                      | _ \<Rightarrow> False)))))"

text \<open>
  The order of the refunds of a group: larger refunds first, then smaller
  addresses.
\<close>

definition refundBefore :: "Utils \<Rightarrow> address \<times> BigNumber \<Rightarrow> address \<times> BigNumber \<Rightarrow> bool" where
  "refundBefore U a b = (snd a > snd b \<or> (snd a = snd b \<and> compareAddresses U (fst a) (fst b) < 0))"

text \<open>
  A method only logs when the world it leaves is the world it started from with
  more log entries.
\<close>

definition onlyLogs :: "'a M \<Rightarrow> bool" where
  "onlyLogs m = (\<forall>w r w'. m w = Inr (r, w') \<longrightarrow> (\<exists>ls. w' = w\<lparr>logs := logs w @ ls\<rparr>))"

text \<open>
  The checks of \<^verbatim>\<open>validateRootBundle\<close> that precede the comparison of the
  pending end blocks with the latest blocks: the HubPool client is updated and
  its network answers, a proposal is pending, its challenge window is open, its
  pool rebalance root is not the empty root, it has one end block for each
  expected range, and no end block is below its expected start block.
\<close>

definition passesEarlierChecks :: "Utils \<Rightarrow> Dataworker \<Rightarrow> int \<Rightarrow> (int \<times> int) list \<Rightarrow> bool" where
  "passesEarlierChecks U dw hubPoolChainId widest =
     (HubPoolClient.isUpdated (hubPoolClient (clients dw))
      \<and> getNetworkChainId (hubPoolClient (clients dw)) = Inr hubPoolChainId
      \<and> hasPendingProposal (hubPoolClient (clients dw))
      \<and> currentTime (hubPoolClient (clients dw))
            \<le> challengePeriodEndTimestamp (getPendingRootBundleProposal (hubPoolClient (clients dw)))
      \<and> poolRebalanceRoot (getPendingRootBundleProposal (hubPoolClient (clients dw)))
            \<noteq> EMPTY_MERKLE_ROOT U
      \<and> getWidestPossibleExpectedBlockRange dw = Inr widest
      \<and> length (bundleEvaluationBlockNumbers (getPendingRootBundleProposal (hubPoolClient (clients dw))))
            = length widest
      \<and> (\<forall>i < length widest.
            fst (widest ! i)
              \<le> bundleEvaluationBlockNumbers (getPendingRootBundleProposal (hubPoolClient (clients dw))) ! i))"

text \<open>The transaction that a dispute with the given markdown enqueues.\<close>

definition disputeTransaction :: "int \<Rightarrow> string \<Rightarrow> Transaction" where
  "disputeTransaction hubPoolChainId mrkdwn =
     \<lparr>txn_chainId = hubPoolChainId,
      txn_method = ''disputeRootBundle'',
      txn_args = [],
      txn_message = ''Disputed pending root bundle'',
      txn_mrkdwn = mrkdwn\<rparr>"




text \<open>A relayer refund leaf under construction has its group index.\<close>

definition hasGroupIndex :: "RelayerRefundLeaf \<Rightarrow> bool" where
  "hasGroupIndex leaf = (groupIndex leaf \<noteq> None)"

text \<open>
  The order that the final leaves still show: by chain id, then by token address.
\<close>

definition finalLeafBefore :: "Utils \<Rightarrow> RelayerRefundLeaf \<Rightarrow> RelayerRefundLeaf \<Rightarrow> bool" where
  "finalLeafBefore U a b =
     (chainId a < chainId b
      \<or> (chainId a = chainId b
          \<and> compareAddresses U (l2TokenAddress a) (l2TokenAddress b) \<le> 0))"


section \<open>A bundle over two chains\<close>

text \<open>
  A concrete snapshot on which the statements below are exercised: mainnet (chain
  1) and chain 10, one token (\<open>0xa1\<close> on mainnet, \<open>0xb1\<close> on chain 10), one
  deposit of 1000 from mainnet to chain 10, and on chain 10 one fill of it before
  the bundle's block range, three partial fills by three relayers inside the
  range, and a fill of a deposit that does not exist.  The imported functions are
  given simple implementations after the spec's description of them, and the
  Merkle roots are toy digests.
\<close>

fun alistUpdate :: "'k \<Rightarrow> ('v option \<Rightarrow> 'v) \<Rightarrow> ('k \<times> 'v) list \<Rightarrow> ('k \<times> 'v) list" where
  "alistUpdate k f [] = [(k, f None)]"
| "alistUpdate k f ((k', v) # kvs) =
     (if k = k' then (k', f (Some v)) # kvs else (k', v) # alistUpdate k f kvs)"

text \<open>An object lists its integer keys in ascending order.\<close>

fun alistUpdateInt :: "int \<Rightarrow> ('v option \<Rightarrow> 'v) \<Rightarrow> (int \<times> 'v) list \<Rightarrow> (int \<times> 'v) list" where
  "alistUpdateInt k f [] = [(k, f None)]"
| "alistUpdateInt k f ((k', v) # kvs) =
     (if k = k' then (k', f (Some v)) # kvs
      else if k < k' then (k, f None) # (k', v) # kvs
      else (k', v) # alistUpdateInt k f kvs)"

definition exCompareAddresses :: "address \<Rightarrow> address \<Rightarrow> int" where
  "exCompareAddresses a b =
     (if digitsVal 16 0 (codeUnits (drop 2 a)) > digitsVal 16 0 (codeUnits (drop 2 b)) then 1
      else if digitsVal 16 0 (codeUnits (drop 2 a)) < digitsVal 16 0 (codeUnits (drop 2 b)) then - 1
      else 0)"

definition exLpFee :: "'a Fill_scheme \<Rightarrow> BigNumber" where
  "exLpFee fill = fillAmount fill * realizedLpFeePct fill div 10 ^ 18"

definition exEmptyGroup :: RefundGroup where
  "exEmptyGroup = \<lparr>totalRefundAmount = 0, RefundGroup.realizedLpFees = 0, fills = [], refunds = []\<rparr>"

definition exUpdateGroup ::
  "(RefundGroup \<Rightarrow> RefundGroup) \<Rightarrow> FillsToRefund \<Rightarrow> int \<Rightarrow> address \<Rightarrow> FillsToRefund" where
  "exUpdateGroup f fillsToRefund' chain token =
     alistUpdateInt chain
       (\<lambda>tokens. alistUpdate token
                    (\<lambda>g. f (case g of None \<Rightarrow> exEmptyGroup | Some g' \<Rightarrow> g'))
                    (case tokens of None \<Rightarrow> [] | Some ts \<Rightarrow> ts))
       fillsToRefund'"

definition exInRange :: "(int \<times> int) list \<Rightarrow> int list \<Rightarrow> int \<Rightarrow> int \<Rightarrow> bool" where
  "exInRange blockRanges chainIdList chain block =
     (case getBlockRangeForChain blockRanges chain chainIdList of
        Inl e \<Rightarrow> False
      | Inr r \<Rightarrow> fst r \<le> block \<and> block \<le> snd r)"

definition exAddBalance :: "RunningBalances \<Rightarrow> int \<Rightarrow> address \<Rightarrow> BigNumber \<Rightarrow> RunningBalances" where
  "exAddBalance balances chain l1Token delta =
     alistUpdateInt chain
       (\<lambda>tokens. alistUpdate l1Token
                    (\<lambda>b. (case b of None \<Rightarrow> 0 | Some b' \<Rightarrow> b') + delta)
                    (case tokens of None \<Rightarrow> [] | Some ts \<Rightarrow> ts))
       balances"

definition exPoolLeaf ::
  "RunningBalances \<Rightarrow> BigNumberForToken \<Rightarrow> (int \<times> (address \<times> BigNumber) list) \<times> nat
     \<Rightarrow> PoolRebalanceLeaf" where
  "exPoolLeaf lpFees thresholds entry =
     (let chain = fst (fst entry); balances = snd (fst entry);
          threshold = (\<lambda>t. case map_of thresholds t of None \<Rightarrow> 0 | Some x \<Rightarrow> x)
      in \<lparr>PoolRebalanceLeaf.chainId = chain,
           PoolRebalanceLeaf.groupIndex = 0,
           bundleLpFees =
             map (\<lambda>(t, b). case map_of lpFees chain of
                              None \<Rightarrow> 0
                            | Some fees \<Rightarrow> (case map_of fees t of None \<Rightarrow> 0 | Some x \<Rightarrow> x))
               balances,
           netSendAmounts = map (\<lambda>(t, b). getNetSendAmountForL1Token (threshold t) b) balances,
           PoolRebalanceLeaf.runningBalances =
             map (\<lambda>(t, b). b - getNetSendAmountForL1Token (threshold t) b) balances,
           l1Tokens = map fst balances,
           PoolRebalanceLeaf.leafId = int (snd entry)\<rparr>)"

definition exDigest :: "string \<Rightarrow> int list \<Rightarrow> string" where
  "exDigest tag ns = ''0x'' @ tag @ concat (map (\<lambda>n. natToString (nat \<bar>n\<bar>)) ns)"

definition exUtils :: Utils where
  "exUtils =
     \<lparr>compareAddresses = exCompareAddresses,
      EMPTY_MERKLE_ROOT = ''0x0000000000000000000000000000000000000000000000000000000000000000'',
      buildRelayerRefundTree =
        (\<lambda>ls. exDigest ''52''
                 (concat (map (\<lambda>l. chainId l # leafId l # amountToReturn l # refundAmounts l) ls))),
      buildSlowRelayTree =
        (\<lambda>ls. exDigest ''51''
                 (concat (map (\<lambda>l. [originChainId l, depositId l, amount l]) ls))),
      buildPoolRebalanceLeafTree =
        (\<lambda>ls. exDigest ''50''
                 (concat (map (\<lambda>l. PoolRebalanceLeaf.chainId l # PoolRebalanceLeaf.leafId l
                                      # netSendAmounts l) ls))),
      getUniqueDepositsInRange =
        (\<lambda>blockRanges origin destination chainIdList originClient deposits'.
           Inr (filter (\<lambda>d. exInRange blockRanges chainIdList origin (originBlockNumber d)
                             \<and> \<not> list_ex (\<lambda>d'. originChainId d' = originChainId d
                                                \<and> depositId d' = depositId d) deposits')
                  (getDepositsForDestinationChain originClient destination))),
      getRefundInformationFromFill =
        (\<lambda>fill hub blockRanges chainIdList.
           if isSlowRelay fill then Inr (destinationChainId fill, destinationToken fill)
           else
             bindE (getBlockRangeForChain blockRanges 1 chainIdList) (\<lambda>r.
             bindE (getL1TokenCounterpartAtBlock hub (destinationChainId fill)
                      (destinationToken fill) (snd r)) (\<lambda>l1Token.
             bindE (getDestinationTokenForL1TokenDestinationChainId hub (Some l1Token)
                      (repaymentChainId fill)) (\<lambda>l2Token.
             Inr (repaymentChainId fill, l2Token))))),
      updateFillsToRefundWithValidFill =
        (\<lambda>fillsToRefund' fill chain token.
           Inr (exUpdateGroup
                  (\<lambda>g. g\<lparr>fills := fills g @ [fill],
                           RefundGroup.realizedLpFees := RefundGroup.realizedLpFees g + exLpFee fill\<rparr>)
                  fillsToRefund' chain token)),
      updateUnfilledDepositsWithMatchedDeposit =
        (\<lambda>fill matchedDeposit unfilled.
           Inr (alistUpdate (decimalString (originChainId fill) @ ''-'' @ decimalString (depositId fill))
                  (\<lambda>v. case v of
                          None \<Rightarrow>
                            [\<lparr>deposit = matchedDeposit,
                              unfilledAmount = amount fill - totalFilledAmount fill,
                              hasFirstFillInRange = (fillAmount fill = totalFilledAmount fill)\<rparr>]
                        | Some us \<Rightarrow>
                            map (\<lambda>u. u\<lparr>unfilledAmount :=
                                          min (unfilledAmount u)
                                            (amount fill - totalFilledAmount fill)\<rparr>) us)
                  unfilled)),
      updateFillsToRefundWithSlowFill =
        (\<lambda>fillsToRefund' fill chain token.
           Inr (exUpdateGroup
                  (\<lambda>g. g\<lparr>totalRefundAmount := totalRefundAmount g + (fillAmount fill - exLpFee fill),
                           refunds := alistUpdate (relayer fill)
                                        (\<lambda>r. (case r of None \<Rightarrow> 0 | Some r' \<Rightarrow> r')
                                              + (fillAmount fill - exLpFee fill))
                                        (refunds g)\<rparr>)
                  fillsToRefund' chain token)),
      flattenAndFilterUnfilledDepositsByOriginChain =
        (\<lambda>unfilled. Inr (filter (\<lambda>u. unfilledAmount u > 0) (concat (map snd unfilled)))),
      getFillsInRange =
        (\<lambda>fills' blockRanges chainIdList.
           Inr (filter (\<lambda>f. exInRange blockRanges chainIdList (destinationChainId f) (blockNumber f))
                  fills')),
      initializeRunningBalancesFromRelayerRepayments =
        (\<lambda>endBlock hub fillsToRefund'.
           forEachE (\<lambda>acc chainEntry.
              forEachE (\<lambda>acc' tokenEntry.
                 bindE (getL1TokenCounterpartAtBlock hub (fst chainEntry) (fst tokenEntry) endBlock)
                   (\<lambda>l1Token.
                 Inr (exAddBalance (fst acc') (fst chainEntry) l1Token
                        (totalRefundAmount (snd tokenEntry)),
                      exAddBalance (snd acc') (fst chainEntry) l1Token
                        (RefundGroup.realizedLpFees (snd tokenEntry)))))
                acc (snd chainEntry))
             ([], []) fillsToRefund'),
      subtractExcessFromPreviousSlowFillsFromRunningBalances =
        (\<lambda>balances hub fills' chainIdList. Inr balances),
      updateRunningBalanceForDeposit =
        (\<lambda>balances hub d delta.
           bindE (getL1TokenCounterpartAtBlock hub (originChainId d) (originToken d)
                    (quoteTimestamp d)) (\<lambda>l1Token.
           Inr (exAddBalance balances (originChainId d) l1Token delta))),
      constructPoolRebalanceLeaves =
        (\<lambda>endBlock balances lpFees config maxL1TokenCount thresholds.
           Inr (map (exPoolLeaf lpFees thresholds) (zip balances [0 ..< length balances]))),
      largeNumberToString = decimalString,
      generateMarkdownForRootBundle =
        (\<lambda>hubPoolChainId blockRanges poolLeaves poolRoot refundLeaves refundRoot slowLeaves slowRoot.
           Inr (''*PoolRebalance* root:'' @ shortenHexString poolRoot))\<rparr>"

definition exDeposit :: DepositWithBlock where
  "exDeposit =
     \<lparr>depositor = ''0xd1'', recipient = ''0xd2'', destinationToken = ''0xb1'', amount = 1000,
      originChainId = 1, destinationChainId = 10, realizedLpFeePct = 10 ^ 17, relayerFeePct = 0,
      depositId = 7, originToken = ''0xa1'', quoteTimestamp = 150, originBlockNumber = 150\<rparr>"

definition exFill :: "int \<Rightarrow> address \<Rightarrow> BigNumber \<Rightarrow> BigNumber \<Rightarrow> int \<Rightarrow> FillWithBlock" where
  "exFill deposit' relayer' fillAmount' totalFilledAmount' block =
     \<lparr>depositor = ''0xd1'', recipient = ''0xd2'', destinationToken = ''0xb1'', amount = 1000,
      originChainId = 1, destinationChainId = 10, realizedLpFeePct = 10 ^ 17, relayerFeePct = 0,
      depositId = deposit', fillAmount = fillAmount', totalFilledAmount = totalFilledAmount',
      repaymentChainId = 10, relayer = relayer', isSlowRelay = False,
      blockNumber = block, transactionIndex = 0, logIndex = 0\<rparr>"

definition exFills :: "FillWithBlock list" where
  "exFills =
     [exFill 7 ''0x0c'' 100 100 490,
      exFill 7 ''0x0c'' 400 500 510,
      exFill 7 ''0x0a'' 300 800 520,
      exFill 99 ''0x0a'' 50 50 525,
      exFill 7 ''0x0b'' 100 900 530]"

definition exSpokePoolClient :: "int \<Rightarrow> SpokePoolClient" where
  "exSpokePoolClient chain =
     \<lparr>SpokePoolClient.isUpdated = True,
      getFillsWithBlockForOriginChain = (\<lambda>origin. if chain = 10 \<and> origin = 1 then exFills else []),
      getDepositForFill =
        (\<lambda>fill. if chain = 1 \<and> originChainId fill = 1 \<and> depositId fill = 7
                 then Some (Deposit.truncate exDeposit) else None),
      getDepositsForDestinationChain =
        (\<lambda>destination. if chain = 1 \<and> destination = 10 then [exDeposit] else [])\<rparr>"

definition exSpokePoolClients :: "int \<rightharpoonup> SpokePoolClient" where
  "exSpokePoolClients = map_of [(10, exSpokePoolClient 10), (1, exSpokePoolClient 1)]"

definition exHubPoolClient :: "RootBundle \<Rightarrow> int \<Rightarrow> HubPoolClient" where
  "exHubPoolClient pending time =
     \<lparr>HubPoolClient.isUpdated = True,
      hasPendingProposal = True,
      getPendingRootBundleProposal = pending,
      currentTime = time,
      latestBlockNumber = 200,
      getNetworkChainId = Inr 1,
      getL1TokenCounterpartAtBlock =
        (\<lambda>chain l2Token block.
           if (chain = 1 \<and> l2Token = ''0xa1'') \<or> (chain = 10 \<and> l2Token = ''0xb1'') then Inr ''0xa1''
           else Inl (Error ''Could not find L1 token'')),
      getDestinationTokenForL1TokenDestinationChainId =
        (\<lambda>l1Token chain.
           if l1Token = Some ''0xa1'' \<and> chain = 1 then Inr ''0xa1''
           else if l1Token = Some ''0xa1'' \<and> chain = 10 then Inr ''0xb1''
           else Inl (Error ''Could not find L2 token'')),
      getNextBundleStartBlockNumber =
        (\<lambda>chainIdList latest chain. Inr (if chain = 1 then 100 else 500))\<rparr>"

definition exDataworker :: "RootBundle \<Rightarrow> int \<Rightarrow> (int \<times> int) list \<Rightarrow> Dataworker" where
  "exDataworker pending time buffers =
     \<lparr>clients =
        \<lparr>hubPoolClient = exHubPoolClient pending time,
         configStoreClient =
           \<lparr>ConfigStoreClient.isUpdated = True,
            getMaxRefundCountForRelayerRefundLeafForBlock = (\<lambda>block. Inr 2),
            getTokenTransferThresholdForBlock = (\<lambda>l1Token block. Inr 0)\<rparr>,
         spokePoolSigners = [(1, Inr 200), (10, Inr 600)],
         spokePoolClientForBlock =
           (\<lambda>chain block. if chain = 1 \<or> chain = 10 then Inr (exSpokePoolClient chain)
                           else Inl (Error ''No SpokePool for chain''))\<rparr>,
      chainIdListForBundleEvaluationBlockNumbers = [1, 10],
      maxRefundCountOverride = None,
      maxL1TokenCountOverride = None,
      tokenTransferThreshold = [],
      blockRangeEndBlockBuffer = buffers\<rparr>"

definition exPending :: "int list \<Rightarrow> int \<Rightarrow> string \<Rightarrow> string \<Rightarrow> string \<Rightarrow> RootBundle" where
  "exPending endBlocks leafCount poolRoot refundRoot slowRoot =
     \<lparr>proposer = ''0xee'',
      challengePeriodEndTimestamp = 7200,
      bundleEvaluationBlockNumbers = endBlocks,
      unclaimedPoolRebalanceLeafCount = leafCount,
      poolRebalanceRoot = poolRoot,
      relayerRefundRoot = refundRoot,
      slowRelayRoot = slowRoot\<rparr>"

text \<open>
  The Dataworker that finds pending a proposal for the end blocks 200 and 600, with
  the leaf count and the three roots that it rebuilds itself.
\<close>

definition exDw :: Dataworker where
  "exDw =
     exDataworker
       (exPending [200, 600] 2 ''0x50101000101720'' ''0x521010001010360270102090'' ''0x51171000'')
       0 []"

definition exSlowLeaf :: "int \<Rightarrow> int \<Rightarrow> BigNumber \<Rightarrow> RelayData" where
  "exSlowLeaf origin deposit' amount' =
     \<lparr>depositor = ''0xd1'', recipient = ''0xd2'', destinationToken = ''0xb1'', amount = amount',
      originChainId = origin, destinationChainId = 10, realizedLpFeePct = 10 ^ 17,
      relayerFeePct = 0, depositId = deposit'\<rparr>"

text \<open>
  An unfilled deposit, and a relayer refund leaf under construction, for the
  statements on the order of the leaves.
\<close>

definition exUnfilledDeposit :: "int \<Rightarrow> int \<Rightarrow> BigNumber \<Rightarrow> UnfilledDeposit" where
  "exUnfilledDeposit origin deposit' amount' =
     \<lparr>deposit =
        \<lparr>depositor = ''0xd1'', recipient = ''0xd2'', destinationToken = ''0xb1'', amount = amount',
         originChainId = origin, destinationChainId = 10, realizedLpFeePct = 10 ^ 17,
         relayerFeePct = 0, depositId = deposit', originToken = ''0xa1'', quoteTimestamp = 150\<rparr>,
      unfilledAmount = amount',
      hasFirstFillInRange = True\<rparr>"

definition exRefundLeaf :: "int \<Rightarrow> address \<Rightarrow> int \<Rightarrow> RelayerRefundLeaf" where
  "exRefundLeaf chain token groupIndex' =
     \<lparr>groupIndex = Some groupIndex', amountToReturn = 0, chainId = chain, refundAmounts = [],
      leafId = 0, l2TokenAddress = token, refundAddresses = []\<rparr>"

definition exWorld :: World where
  "exWorld = \<lparr>logs = [], transactions = []\<rparr>"

section \<open>Properties of toBN\<close>

lemma dropWhile_white:
  assumes "list_all isWhiteSpace ws" and "t = [] \<or> \<not> isWhiteSpace (hd t)"
  shows "dropWhile isWhiteSpace (ws @ t) = t"
proof -
  have "dropWhile isWhiteSpace (ws @ t) = dropWhile isWhiteSpace t"
    using assms(1) by (induction ws) auto
  also have "\<dots> = t" using assms(2) by (cases t) auto
  finally show ?thesis .
qed

lemma sign_not_white: "\<not> isWhiteSpace (of_char CHR ''+'')" "\<not> isWhiteSpace (of_char CHR ''-'')"
  by (simp_all add: isWhiteSpace_def)

lemma digit_facts:
  assumes "isDigitOf radix c" and "radix \<le> 16"
  shows "\<not> isWhiteSpace c" and "c \<noteq> of_char CHR ''+''" and "c \<noteq> of_char CHR ''-''"
    and "c \<noteq> of_char CHR ''.''" and "c \<noteq> of_char CHR ''x''" and "c \<noteq> of_char CHR ''X''"
  using assms
  by (auto simp: isDigitOf_def digitVal_def isWhiteSpace_def Let_def split: if_splits)

lemma parseInt_after_sign:
  assumes ws: "list_all isWhiteSpace ws" and sg: "isSign sg"
    and t: "sg = [] \<longrightarrow> \<not> startsNumber t"
  shows "parseInt (ws @ sg @ t) =
           (let hex = (startsWith t ''0x'' \<or> startsWith t ''0X'');
                R = (if hex then 16 else 10);
                Z = takeWhile (isDigitOf R) (if hex then drop 2 t else t)
            in if Z = [] then None else Some (signOf sg * digitsVal R 0 Z))"
proof -
  have S: "dropWhile isWhiteSpace (ws @ sg @ t) = sg @ t"
  proof (rule dropWhile_white [OF ws])
    show "sg @ t = [] \<or> \<not> isWhiteSpace (hd (sg @ t))"
      using sg t sign_not_white
      by (auto simp: isSign_def codeUnits_def startsNumber_def)
  qed
  consider (none) "sg = []" | (plus) "sg = codeUnits ''+''" | (minus) "sg = codeUnits ''-''"
    using sg by (auto simp: isSign_def)
  then show ?thesis
  proof cases
    case none
    then have "\<not> startsWith t ''+''" "\<not> startsWith t ''-''"
      using t by (cases t; auto simp: startsWith_def startsNumber_def codeUnits_def)+
    then show ?thesis
      unfolding parseInt_def S using none by (simp add: Let_def signOf_def codeUnits_def)
  next
    case plus
    then show ?thesis
      unfolding parseInt_def S by (simp add: Let_def signOf_def codeUnits_def startsWith_def)
  next
    case minus
    then show ?thesis
      unfolding parseInt_def S by (simp add: Let_def signOf_def codeUnits_def startsWith_def)
  qed
qed

lemma takeWhile_numeral:
  assumes "list_all (isDigitOf radix) ds" and "endsNumeral radix rest"
  shows "takeWhile (isDigitOf radix) (ds @ rest) = ds"
proof -
  have "takeWhile (isDigitOf radix) rest = []"
    using assms(2) by (cases rest) (auto simp: endsNumeral_def)
  then show ?thesis using assms(1) by (induction ds) auto
qed

lemma digitsVal_nonneg:
  "0 \<le> acc \<Longrightarrow> 0 \<le> radix \<Longrightarrow> list_all (isDigitOf radix) ds \<Longrightarrow> 0 \<le> digitsVal radix acc ds"
proof (induction ds arbitrary: acc)
  case Nil
  then show ?case by simp
next
  case (Cons c cs)
  from Cons.prems(3) obtain d where d: "digitVal c = Some d" "d < radix"
    by (auto simp: isDigitOf_def split: option.splits)
  then have "0 \<le> d" by (auto simp: digitVal_def Let_def split: if_splits)
  then have "0 \<le> acc * radix + d" using Cons.prems(1,2) by simp
  then show ?case using Cons.IH [of "acc * radix + d"] Cons.prems d by simp
qed

lemma from_number_signed:
  assumes "0 \<le> v"
  shows "BigNumber_from_number (Some (signOf sg * v)) =
           (if v < MAX_SAFE then Inr (BigNumberOf (signOf sg * v)) else Inl (BigNumberError ''overflow''))"
  using assms by (auto simp: BigNumber_from_number_def signOf_def MAX_SAFE_def)

lemma parseInt_decimal:
  assumes ws: "list_all isWhiteSpace ws" and sg: "isSign sg"
    and ds: "ds \<noteq> []" "list_all (isDigitOf 10) ds" and rest: "endsNumeral 10 rest"
    and nohex: "\<not> startsWith (ds @ rest) ''0x''" "\<not> startsWith (ds @ rest) ''0X''"
  shows "parseInt (ws @ sg @ ds @ rest) = Some (signOf sg * digitsVal 10 0 ds)"
proof -
  obtain d ds' where dd: "ds = d # ds'" using ds(1) by (cases ds) auto
  then have d: "isDigitOf 10 d" using ds(2) by simp
  have "\<not> startsNumber (ds @ rest)"
    using digit_facts [OF d] by (simp add: startsNumber_def dd)
  from parseInt_after_sign [OF ws sg, of "ds @ rest"] this nohex
    takeWhile_numeral [OF ds(2) rest] ds(1)
  show ?thesis by (simp add: Let_def)
qed

lemma parseInt_hex:
  assumes ws: "list_all isWhiteSpace ws" and sg: "isSign sg"
    and px: "px = codeUnits ''0x'' \<or> px = codeUnits ''0X''"
    and hs: "list_all (isDigitOf 16) hs" and rest: "endsNumeral 16 rest"
  shows "parseInt (ws @ sg @ px @ hs @ rest) =
           (if hs = [] then None else Some (signOf sg * digitsVal 16 0 hs))"
proof -
  have sn: "\<not> startsNumber (px @ hs @ rest)"
    using px by (auto simp: startsNumber_def codeUnits_def isWhiteSpace_def)
  have hex: "startsWith (px @ hs @ rest) ''0x'' \<or> startsWith (px @ hs @ rest) ''0X''"
    using px by (auto simp: startsWith_def codeUnits_def)
  have dr: "drop 2 (px @ hs @ rest) = hs @ rest"
    using px by (auto simp: codeUnits_def)
  from parseInt_after_sign [OF ws sg, of "px @ hs @ rest"] sn hex dr
    takeWhile_numeral [OF hs rest]
  show ?thesis by (simp add: Let_def)
qed

lemma parseInt_none:
  assumes ws: "list_all isWhiteSpace ws" and sg: "isSign sg"
    and t: "sg = [] \<longrightarrow> \<not> startsNumber rest" and rest: "endsNumeral 10 rest"
  shows "parseInt (ws @ sg @ rest) = None"
proof -
  have nohex: "\<not> startsWith rest ''0x''" "\<not> startsWith rest ''0X''"
    using rest
    by (cases rest; auto simp: endsNumeral_def startsWith_def codeUnits_def isDigitOf_def digitVal_def)+
  have "takeWhile (isDigitOf 10) rest = []"
    using rest by (cases rest) (auto simp: endsNumeral_def)
  with parseInt_after_sign [OF ws sg t] nohex show ?thesis by (simp add: Let_def)
qed

text \<open>
  C10, as amended.  An argument whose string has no dot goes to
  \<^verbatim>\<open>BigNumber.from\<close> as the string it is.  An argument whose string has a dot
  goes through \<^verbatim>\<open>parseInt\<close>, which reads white space, a sign and the integer
  prefix.  Where the prefix is a decimal numeral, or a hexadecimal numeral after
  \<^verbatim>\<open>0x\<close> or \<^verbatim>\<open>0X\<close>, of a value below \<open>2^53 - 1\<close>, the result is the big number
  of the signed value of the prefix, and what follows the prefix is dropped; where
  the value is \<open>2^53 - 1\<close> or more, \<^verbatim>\<open>toBN\<close> throws the overflow fault; and where
  there is no digit after the sign, or after the hexadecimal prefix, \<^verbatim>\<open>toBN\<close>
  throws, for \<^verbatim>\<open>NaN\<close> is no big number.
\<close>

theorem toBN_dot_cases:
  "(of_char CHR ''.'' \<notin> set s \<longrightarrow> toBN s = BigNumber_from_string s) \<and>
   (of_char CHR ''.'' \<in> set s \<longrightarrow>
      (\<forall>ws sg ds rest.
          s = ws @ sg @ ds @ rest \<and> list_all isWhiteSpace ws \<and> isSign sg
          \<and> ds \<noteq> [] \<and> list_all (isDigitOf 10) ds \<and> endsNumeral 10 rest
          \<and> \<not> startsWith (ds @ rest) ''0x'' \<and> \<not> startsWith (ds @ rest) ''0X''
          \<longrightarrow> toBN s = (if digitsVal 10 0 ds < MAX_SAFE
                         then Inr (BigNumberOf (signOf sg * digitsVal 10 0 ds))
                         else Inl (BigNumberError ''overflow''))) \<and>
      (\<forall>ws sg px hs rest.
          s = ws @ sg @ px @ hs @ rest \<and> list_all isWhiteSpace ws \<and> isSign sg
          \<and> (px = codeUnits ''0x'' \<or> px = codeUnits ''0X'')
          \<and> hs \<noteq> [] \<and> list_all (isDigitOf 16) hs \<and> endsNumeral 16 rest
          \<longrightarrow> toBN s = (if digitsVal 16 0 hs < MAX_SAFE
                         then Inr (BigNumberOf (signOf sg * digitsVal 16 0 hs))
                         else Inl (BigNumberError ''overflow''))) \<and>
      (\<forall>ws sg px rest.
          s = ws @ sg @ px @ rest \<and> list_all isWhiteSpace ws \<and> isSign sg
          \<and> (px = codeUnits ''0x'' \<or> px = codeUnits ''0X'') \<and> endsNumeral 16 rest
          \<longrightarrow> toBN s = Inl (BigNumberError ''invalid BigNumber string'')) \<and>
      (\<forall>ws sg rest.
          s = ws @ sg @ rest \<and> list_all isWhiteSpace ws \<and> isSign sg
          \<and> (sg = [] \<longrightarrow> \<not> startsNumber rest) \<and> endsNumeral 10 rest
          \<longrightarrow> toBN s = Inl (BigNumberError ''invalid BigNumber string'')))"
proof (intro conjI impI allI)
  show "toBN s = BigNumber_from_string s" if "of_char CHR ''.'' \<notin> set s"
    using that by (simp add: toBN_def)
next
  fix ws sg ds rest
  assume dot: "of_char CHR ''.'' \<in> set s"
    and h: "s = ws @ sg @ ds @ rest \<and> list_all isWhiteSpace ws \<and> isSign sg
          \<and> ds \<noteq> [] \<and> list_all (isDigitOf 10) ds \<and> endsNumeral 10 rest
          \<and> \<not> startsWith (ds @ rest) ''0x'' \<and> \<not> startsWith (ds @ rest) ''0X''"
  then have p: "parseInt s = Some (signOf sg * digitsVal 10 0 ds)"
    using parseInt_decimal [of ws sg ds rest] by simp
  have "0 \<le> digitsVal 10 0 ds" using h digitsVal_nonneg [of 0 10 ds] by simp
  from from_number_signed [OF this, of sg] dot p
  show "toBN s = (if digitsVal 10 0 ds < MAX_SAFE
                  then Inr (BigNumberOf (signOf sg * digitsVal 10 0 ds))
                  else Inl (BigNumberError ''overflow''))"
    by (simp add: toBN_def)
next
  fix ws sg px hs rest
  assume dot: "of_char CHR ''.'' \<in> set s"
    and h: "s = ws @ sg @ px @ hs @ rest \<and> list_all isWhiteSpace ws \<and> isSign sg
          \<and> (px = codeUnits ''0x'' \<or> px = codeUnits ''0X'')
          \<and> hs \<noteq> [] \<and> list_all (isDigitOf 16) hs \<and> endsNumeral 16 rest"
  then have p: "parseInt s = Some (signOf sg * digitsVal 16 0 hs)"
    using parseInt_hex [of ws sg px hs rest] by simp
  have "0 \<le> digitsVal 16 0 hs" using h digitsVal_nonneg [of 0 16 hs] by simp
  from from_number_signed [OF this, of sg] dot p
  show "toBN s = (if digitsVal 16 0 hs < MAX_SAFE
                  then Inr (BigNumberOf (signOf sg * digitsVal 16 0 hs))
                  else Inl (BigNumberError ''overflow''))"
    by (simp add: toBN_def)
next
  fix ws sg px rest
  assume dot: "of_char CHR ''.'' \<in> set s"
    and h: "s = ws @ sg @ px @ rest \<and> list_all isWhiteSpace ws \<and> isSign sg
          \<and> (px = codeUnits ''0x'' \<or> px = codeUnits ''0X'') \<and> endsNumeral 16 rest"
  then have "parseInt s = None"
    using parseInt_hex [of ws sg px "[]" rest] by simp
  with dot show "toBN s = Inl (BigNumberError ''invalid BigNumber string'')"
    by (simp add: toBN_def BigNumber_from_number_def)
next
  fix ws sg rest
  assume dot: "of_char CHR ''.'' \<in> set s"
    and h: "s = ws @ sg @ rest \<and> list_all isWhiteSpace ws \<and> isSign sg
          \<and> (sg = [] \<longrightarrow> \<not> startsNumber rest) \<and> endsNumeral 10 rest"
  then have "parseInt s = None"
    using parseInt_none [of ws sg rest] by simp
  with dot show "toBN s = Inl (BigNumberError ''invalid BigNumber string'')"
    by (simp add: toBN_def BigNumber_from_number_def)
qed

theorem toBN_dot_cases_witness:
  "toBN (codeUnits ''-42'') = BigNumber_from_string (codeUnits ''-42'') \<and>
   toBN (codeUnits ''-42'') = Inr (BigNumberOf (- 42)) \<and>
   toBN (0x00A0 # codeUnits '' -12.75'') = Inr (BigNumberOf (- 12)) \<and>
   toBN (codeUnits ''+0X1f.8'') = Inr (BigNumberOf 31) \<and>
   toBN (codeUnits ''0x.8'') = Inl (BigNumberError ''invalid BigNumber string'') \<and>
   toBN (codeUnits ''- 1.5'') = Inl (BigNumberError ''invalid BigNumber string'')"
proof -
  have nodot: "of_char CHR ''.'' \<notin> set (codeUnits ''-42'')"
    by (simp add: codeUnits_def)
  from toBN_dot_cases [of "codeUnits ''-42''", THEN conjunct1, THEN mp, OF nodot]
  have a: "toBN (codeUnits ''-42'') = BigNumber_from_string (codeUnits ''-42'')" .
  have b: "BigNumber_from_string (codeUnits ''-42'') = Inr (BigNumberOf (- 42))"
    by (simp add: BigNumber_from_string_def startsWith_def codeUnits_def isDigitOf_def
        digitVal_def)
  have dot1: "of_char CHR ''.'' \<in> set (0x00A0 # codeUnits '' -12.75'')"
    by (simp add: codeUnits_def)
  have pre1: "0x00A0 # codeUnits '' -12.75''
                = (0x00A0 # codeUnits '' '') @ codeUnits ''-'' @ codeUnits ''12'' @ codeUnits ''.75''
              \<and> list_all isWhiteSpace (0x00A0 # codeUnits '' '') \<and> isSign (codeUnits ''-'')
              \<and> codeUnits ''12'' \<noteq> [] \<and> list_all (isDigitOf 10) (codeUnits ''12'')
              \<and> endsNumeral 10 (codeUnits ''.75'')
              \<and> \<not> startsWith (codeUnits ''12'' @ codeUnits ''.75'') ''0x''
              \<and> \<not> startsWith (codeUnits ''12'' @ codeUnits ''.75'') ''0X''"
    by (simp add: codeUnits_def isWhiteSpace_def isSign_def isDigitOf_def digitVal_def
        endsNumeral_def startsWith_def)
  from toBN_dot_cases [of "0x00A0 # codeUnits '' -12.75''", THEN conjunct2, THEN mp, OF dot1,
      THEN conjunct1, THEN spec, THEN spec, THEN spec, THEN spec, THEN mp, OF pre1]
  have c: "toBN (0x00A0 # codeUnits '' -12.75'') = Inr (BigNumberOf (- 12))"
    by (simp add: codeUnits_def digitVal_def MAX_SAFE_def signOf_def)
  have dot2: "of_char CHR ''.'' \<in> set (codeUnits ''+0X1f.8'')"
    by (simp add: codeUnits_def)
  have pre2: "codeUnits ''+0X1f.8''
                = [] @ codeUnits ''+'' @ codeUnits ''0X'' @ codeUnits ''1f'' @ codeUnits ''.8''
              \<and> list_all isWhiteSpace [] \<and> isSign (codeUnits ''+'')
              \<and> (codeUnits ''0X'' = codeUnits ''0x'' \<or> codeUnits ''0X'' = codeUnits ''0X'')
              \<and> codeUnits ''1f'' \<noteq> [] \<and> list_all (isDigitOf 16) (codeUnits ''1f'')
              \<and> endsNumeral 16 (codeUnits ''.8'')"
    by (simp add: codeUnits_def isSign_def isDigitOf_def digitVal_def endsNumeral_def)
  from toBN_dot_cases [of "codeUnits ''+0X1f.8''", THEN conjunct2, THEN mp, OF dot2,
      THEN conjunct2, THEN conjunct1, THEN spec, THEN spec, THEN spec, THEN spec, THEN spec,
      THEN mp, OF pre2]
  have d: "toBN (codeUnits ''+0X1f.8'') = Inr (BigNumberOf 31)"
    by (simp add: codeUnits_def digitVal_def MAX_SAFE_def signOf_def)
  have dot3: "of_char CHR ''.'' \<in> set (codeUnits ''0x.8'')"
    by (simp add: codeUnits_def)
  have pre3: "codeUnits ''0x.8'' = [] @ [] @ codeUnits ''0x'' @ codeUnits ''.8''
              \<and> list_all isWhiteSpace [] \<and> isSign []
              \<and> (codeUnits ''0x'' = codeUnits ''0x'' \<or> codeUnits ''0x'' = codeUnits ''0X'')
              \<and> endsNumeral 16 (codeUnits ''.8'')"
    by (simp add: codeUnits_def isSign_def isDigitOf_def digitVal_def endsNumeral_def)
  from toBN_dot_cases [of "codeUnits ''0x.8''", THEN conjunct2, THEN mp, OF dot3,
      THEN conjunct2, THEN conjunct2, THEN conjunct1, THEN spec, THEN spec, THEN spec, THEN spec,
      THEN mp, OF pre3]
  have e: "toBN (codeUnits ''0x.8'') = Inl (BigNumberError ''invalid BigNumber string'')" .
  have dot4: "of_char CHR ''.'' \<in> set (codeUnits ''- 1.5'')"
    by (simp add: codeUnits_def)
  have pre4: "codeUnits ''- 1.5'' = [] @ codeUnits ''-'' @ codeUnits '' 1.5''
              \<and> list_all isWhiteSpace [] \<and> isSign (codeUnits ''-'')
              \<and> (codeUnits ''-'' = [] \<longrightarrow> \<not> startsNumber (codeUnits '' 1.5''))
              \<and> endsNumeral 10 (codeUnits '' 1.5'')"
    by (simp add: codeUnits_def isSign_def isDigitOf_def digitVal_def endsNumeral_def)
  from toBN_dot_cases [of "codeUnits ''- 1.5''", THEN conjunct2, THEN mp, OF dot4,
      THEN conjunct2, THEN conjunct2, THEN conjunct2, THEN spec, THEN spec, THEN spec,
      THEN mp, OF pre4]
  have f: "toBN (codeUnits ''- 1.5'') = Inl (BigNumberError ''invalid BigNumber string'')" .
  from a b c d e f show ?thesis by simp
qed

text \<open>
  C10, as stated, fails: the string \<^verbatim>\<open>.5\<close> has a dot and no integer prefix, and
  the integer prefix of \<^verbatim>\<open>9007199254740991.5\<close> is no number that
  \<^verbatim>\<open>BigNumber.from\<close> takes; on both \<^verbatim>\<open>toBN\<close> throws and returns no big number.
\<close>

theorem toBN_no_prefix_counterexample:
  "toBN (codeUnits ''.5'') = Inl (BigNumberError ''invalid BigNumber string'') \<and>
   toBN (codeUnits ''9007199254740991.5'') = Inl (BigNumberError ''overflow'')"
  by (simp add: toBN_def codeUnits_def parseInt_def isWhiteSpace_def startsWith_def Let_def
      isDigitOf_def digitVal_def BigNumber_from_number_def MAX_SAFE_def)

section \<open>The monads\<close>

lemma bindE_simps [simp]: "bindE (Inl e) k = Inl e" "bindE (Inr x) k = k x"
  by (simp_all add: bindE_def)

lemma bindE_Inr_iff: "bindE m k = Inr y \<longleftrightarrow> (\<exists>x. m = Inr x \<and> k x = Inr y)"
  by (cases m) simp_all

lemma bindM_apply: "bindM m k w = (case m w of Inl e \<Rightarrow> Inl e | Inr (x, w') \<Rightarrow> k x w')"
  by (simp add: bindM_def)

lemma bindM_Inr: "m w = Inr (x, w1) \<Longrightarrow> bindM m k w = k x w1"
  by (simp add: bindM_def)

lemma bindM_Inr_iff:
  "bindM m k w = Inr (y, w') \<longleftrightarrow> (\<exists>x w1. m w = Inr (x, w1) \<and> k x w1 = Inr (y, w'))"
  by (cases "m w") (auto simp: bindM_def)

lemma liftE_apply: "liftE m w = (case m of Inl e \<Rightarrow> Inl e | Inr x \<Rightarrow> Inr (x, w))"
  by (simp add: liftE_def)

lemma liftE_Inr_iff: "liftE m w = Inr (x, w') \<longleftrightarrow> m = Inr x \<and> w' = w"
  by (cases m) (auto simp: liftE_def)

lemma returnM_apply: "returnM x w = Inr (x, w)"
  by (simp add: returnM_def)

lemma throwM_apply: "throwM e w = Inl e"
  by (simp add: throwM_def)

lemma logger_apply: "logger lvl a msg w = Inr ((), w\<lparr>logs := logs w @ [(lvl, a, msg)]\<rparr>)"
  by (simp add: logger_def)

lemma submitDisputeWithMrkdwn_apply:
  "submitDisputeWithMrkdwn c mrkdwn w
     = Inr ((), w\<lparr>transactions := transactions w @ [disputeTransaction c mrkdwn]\<rparr>)"
  by (simp add: submitDisputeWithMrkdwn_def enqueueTransaction_def disputeTransaction_def)

lemmas M_apply =
  bindM_apply liftE_apply returnM_apply throwM_apply logger_apply submitDisputeWithMrkdwn_apply

subsection \<open>Methods whose result does not depend on the world\<close>

lemma wi_returnM: "worldIndependent (returnM x)"
  by (simp add: worldIndependent_def returnM_def)

lemma wi_throwM: "worldIndependent (throwM e)"
  by (simp add: worldIndependent_def throwM_def)

lemma wi_liftE: "worldIndependent (liftE m)"
  by (cases m) (simp_all add: worldIndependent_def liftE_def)

lemma wi_logger: "worldIndependent (logger lvl a msg)"
  by (simp add: worldIndependent_def logger_def)

lemma wi_bindM:
  assumes m: "worldIndependent m" and k: "\<And>x. worldIndependent (k x)"
  shows "worldIndependent (bindM m k)"
  unfolding worldIndependent_def
proof (intro allI)
  fix w1 w2
  from m have eq: "map_sum id fst (m w1) = map_sum id fst (m w2)"
    by (simp add: worldIndependent_def)
  show "map_sum id fst (bindM m k w1) = map_sum id fst (bindM m k w2)"
  proof (cases "m w1")
    case (Inl e)
    with eq have "m w2 = Inl e" by (cases "m w2") auto
    with Inl show ?thesis by (simp add: bindM_def)
  next
    case (Inr p)
    obtain x w1' where p: "p = (x, w1')" by (cases p)
    with eq Inr obtain w2' where "m w2 = Inr (x, w2')" by (cases "m w2") auto
    moreover from k have "map_sum id fst (k x w1') = map_sum id fst (k x w2')"
      by (simp add: worldIndependent_def)
    ultimately show ?thesis using Inr p by (simp add: bindM_def)
  qed
qed

lemma wi_if:
  "worldIndependent m \<Longrightarrow> worldIndependent n \<Longrightarrow> worldIndependent (if b then m else n)"
  by simp

lemma wi_case_prod:
  "(\<And>a b. worldIndependent (f a b)) \<Longrightarrow> worldIndependent (case p of (a, b) \<Rightarrow> f a b)"
  by (cases p) simp

lemmas wi_intros = wi_returnM wi_throwM wi_liftE wi_logger wi_bindM wi_if wi_case_prod

lemma wi_loadData: "worldIndependent (loadData U dw R sc)"
  unfolding loadData_def Let_def by (intro wi_intros)

lemma wi_buildSlowRelayRoot: "worldIndependent (buildSlowRelayRoot U dw R sc)"
  unfolding buildSlowRelayRoot_def slowRelayRootOf_def Let_def by (intro wi_intros wi_loadData)

lemma wi_buildPoolRebalanceRoot: "worldIndependent (buildPoolRebalanceRoot U dw R sc)"
  unfolding buildPoolRebalanceRoot_def Let_def by (intro wi_intros wi_loadData)

lemma wi_buildRelayerRefundRoot: "worldIndependent (buildRelayerRefundRoot U dw R sc)"
  unfolding buildRelayerRefundRoot_def buildRelayerRefundLeaves_def relayerRefundLeavesOf_def relayerRefundRootOf_def Let_def
  by (intro wi_intros wi_loadData wi_buildPoolRebalanceRoot)

lemma wi_result:
  assumes "worldIndependent m" and "map_sum id fst (m w0) = Inr r"
  shows "\<exists>w'. m w = Inr (r, w')"
proof -
  from assms have "map_sum id fst (m w) = Inr r"
    unfolding worldIndependent_def by metis
  then show ?thesis by (cases "m w") auto
qed

subsection \<open>Methods that only log\<close>

lemma ol_returnM: "onlyLogs (returnM x)"
  unfolding onlyLogs_def returnM_def
proof (intro allI impI)
  fix w :: World and r w' assume "Inr (x, w) = Inr (r, w')"
  then have "w' = w\<lparr>logs := logs w @ []\<rparr>" by simp
  then show "\<exists>ls. w' = w\<lparr>logs := logs w @ ls\<rparr>" ..
qed

lemma ol_throwM: "onlyLogs (throwM e)"
  by (simp add: onlyLogs_def throwM_def)

lemma ol_liftE: "onlyLogs (liftE m)"
  unfolding onlyLogs_def
proof (intro allI impI)
  fix w r w' assume "liftE m w = Inr (r, w')"
  then have "w' = w\<lparr>logs := logs w @ []\<rparr>" by (simp add: liftE_Inr_iff)
  then show "\<exists>ls. w' = w\<lparr>logs := logs w @ ls\<rparr>" ..
qed

lemma ol_logger: "onlyLogs (logger lvl a msg)"
  unfolding onlyLogs_def logger_def by blast

lemma ol_bindM:
  assumes m: "onlyLogs m" and k: "\<And>x. onlyLogs (k x)"
  shows "onlyLogs (bindM m k)"
  unfolding onlyLogs_def
proof (intro allI impI)
  fix w r w' assume "bindM m k w = Inr (r, w')"
  then obtain x w1 where 1: "m w = Inr (x, w1)" and 2: "k x w1 = Inr (r, w')"
    by (auto simp: bindM_Inr_iff)
  from m 1 obtain ls1 where w1: "w1 = w\<lparr>logs := logs w @ ls1\<rparr>"
    unfolding onlyLogs_def by blast
  from k [of x] 2 obtain ls2 where w': "w' = w1\<lparr>logs := logs w1 @ ls2\<rparr>"
    unfolding onlyLogs_def by blast
  have "w' = w\<lparr>logs := logs w @ (ls1 @ ls2)\<rparr>" by (simp add: w1 w')
  then show "\<exists>ls. w' = w\<lparr>logs := logs w @ ls\<rparr>" ..
qed

lemma ol_if: "onlyLogs m \<Longrightarrow> onlyLogs n \<Longrightarrow> onlyLogs (if b then m else n)"
  by simp

lemma ol_case_prod: "(\<And>a b. onlyLogs (f a b)) \<Longrightarrow> onlyLogs (case p of (a, b) \<Rightarrow> f a b)"
  by (cases p) simp

lemmas ol_intros = ol_returnM ol_throwM ol_liftE ol_logger ol_bindM ol_if ol_case_prod

lemma ol_loadData: "onlyLogs (loadData U dw R sc)"
  unfolding loadData_def Let_def by (intro ol_intros)

lemma ol_buildSlowRelayRoot: "onlyLogs (buildSlowRelayRoot U dw R sc)"
  unfolding buildSlowRelayRoot_def slowRelayRootOf_def Let_def by (intro ol_intros ol_loadData)

lemma ol_buildPoolRebalanceRoot: "onlyLogs (buildPoolRebalanceRoot U dw R sc)"
  unfolding buildPoolRebalanceRoot_def Let_def by (intro ol_intros ol_loadData)

lemma ol_buildRelayerRefundRoot: "onlyLogs (buildRelayerRefundRoot U dw R sc)"
  unfolding buildRelayerRefundRoot_def buildRelayerRefundLeaves_def relayerRefundLeavesOf_def relayerRefundRootOf_def Let_def
  by (intro ol_intros ol_loadData ol_buildPoolRebalanceRoot)

text \<open>
  A builder that succeeds from one world succeeds with the same root from any
  other, where it adds log entries and nothing else.
\<close>

lemma builder_run:
  assumes wi: "worldIndependent m" and ol: "onlyLogs m"
    and r: "map_sum id fst (m w0) = Inr r"
  shows "\<exists>ls. m w = Inr (r, w\<lparr>logs := logs w @ ls\<rparr>)"
proof -
  from wi_result [OF wi r] obtain w' where 1: "m w = Inr (r, w')" by blast
  with ol obtain ls where "w' = w\<lparr>logs := logs w @ ls\<rparr>" unfolding onlyLogs_def by blast
  with 1 show ?thesis by blast
qed


section \<open>Sorting with a comparator\<close>

lemma insertSorted_sorted:
  assumes trans: "\<And>a b c. R a b \<Longrightarrow> R b c \<Longrightarrow> R a c"
    and le: "\<And>a b c. P a \<Longrightarrow> P b \<Longrightarrow> cmp a b = Inr c \<Longrightarrow> c \<le> 0 \<Longrightarrow> R a b"
    and gt: "\<And>a b c. P a \<Longrightarrow> P b \<Longrightarrow> cmp a b = Inr c \<Longrightarrow> 0 < c \<Longrightarrow> R b a"
  shows "sorted_wrt R ys \<Longrightarrow> P x \<Longrightarrow> list_all P ys \<Longrightarrow> insertSorted cmp x ys = Inr zs
           \<Longrightarrow> sorted_wrt R zs \<and> set zs = insert x (set ys)"
proof (induction ys arbitrary: zs)
  case Nil
  then show ?case by auto
next
  case (Cons y ys)
  from Cons.prems(4) obtain c where c: "cmp x y = Inr c"
    and rest: "(if c \<le> 0 then Inr (x # y # ys)
                else bindE (insertSorted cmp x ys) (\<lambda>zs. Inr (y # zs))) = Inr zs"
    by (auto simp: bindE_Inr_iff)
  have Py: "P y" and Pys: "list_all P ys" using Cons.prems(3) by auto
  show ?case
  proof (cases "c \<le> 0")
    case True
    with rest have zs: "zs = x # y # ys" by simp
    have xy: "R x y" using le [OF Cons.prems(2) Py c True] .
    have "\<forall>z\<in>set ys. R x z" using Cons.prems(1) xy trans by auto
    with xy Cons.prems(1) show ?thesis by (auto simp: zs)
  next
    case False
    with rest obtain zs' where ins: "insertSorted cmp x ys = Inr zs'" and zs: "zs = y # zs'"
      by (auto simp: bindE_Inr_iff)
    have yx: "R y x" using gt [OF Cons.prems(2) Py c] False by simp
    from Cons.IH [OF _ Cons.prems(2) Pys ins] Cons.prems(1)
    have IH: "sorted_wrt R zs'" "set zs' = insert x (set ys)" by auto
    with yx Cons.prems(1) show ?thesis by (auto simp: zs)
  qed
qed

lemma sortWith_sorted:
  assumes trans: "\<And>a b c. R a b \<Longrightarrow> R b c \<Longrightarrow> R a c"
    and le: "\<And>a b c. P a \<Longrightarrow> P b \<Longrightarrow> cmp a b = Inr c \<Longrightarrow> c \<le> 0 \<Longrightarrow> R a b"
    and gt: "\<And>a b c. P a \<Longrightarrow> P b \<Longrightarrow> cmp a b = Inr c \<Longrightarrow> 0 < c \<Longrightarrow> R b a"
  shows "list_all P xs \<Longrightarrow> sortWith cmp xs = Inr ys \<Longrightarrow> sorted_wrt R ys \<and> set ys = set xs"
proof (induction xs arbitrary: ys)
  case Nil
  then show ?case by auto
next
  case (Cons x xs)
  from Cons.prems(2) obtain ys' where s: "sortWith cmp xs = Inr ys'"
    and i: "insertSorted cmp x ys' = Inr ys"
    by (auto simp: bindE_Inr_iff)
  from Cons.prems(1) have Px: "P x" and Pxs: "list_all P xs" by auto
  from Cons.IH [OF Pxs s] have IH: "sorted_wrt R ys'" "set ys' = set xs" by auto
  then have "list_all P ys'" using Pxs by (simp add: list_all_iff)
  from insertSorted_sorted [of R P cmp, OF trans le gt IH(1) Px this i] IH(2)
  show ?case by auto
qed

lemma insertSorted_total:
  "(\<And>a b. \<exists>c. cmp a b = Inr c) \<Longrightarrow> \<exists>zs. insertSorted cmp x ys = Inr zs"
proof (induction ys)
  case Nil
  then show ?case by simp
next
  case (Cons y ys)
  then obtain c zs where "cmp x y = Inr c" "insertSorted cmp x ys = Inr zs" by metis
  then show ?case by simp
qed

lemma sortWith_total:
  "(\<And>a b. \<exists>c. cmp a b = Inr c) \<Longrightarrow> \<exists>ys. sortWith cmp xs = Inr ys"
proof (induction xs)
  case Nil
  then show ?case by simp
next
  case (Cons x xs)
  then obtain ys where "sortWith cmp xs = Inr ys" by metis
  moreover obtain zs where "insertSorted cmp x ys = Inr zs"
    using insertSorted_total [of cmp x ys] Cons.prems by metis
  ultimately show ?case by simp
qed

lemma insertSorted_length: "insertSorted cmp x ys = Inr zs \<Longrightarrow> length zs = Suc (length ys)"
  by (induction ys arbitrary: zs) (auto simp: bindE_Inr_iff split: if_splits)

lemma sortWith_length: "sortWith cmp xs = Inr ys \<Longrightarrow> length ys = length xs"
  by (induction xs arbitrary: ys) (auto simp: bindE_Inr_iff dest: insertSorted_length)

lemma slowRelayBefore_trans: "slowRelayBefore a b \<Longrightarrow> slowRelayBefore b c \<Longrightarrow> slowRelayBefore a c"
  by (auto simp: slowRelayBefore_def)

lemma sortWith_compareSlowRelays:
  "\<exists>ys. sortWith compareSlowRelays xs = Inr ys \<and> sorted_wrt slowRelayBefore ys \<and> set ys = set xs
        \<and> length ys = length xs"
proof -
  have "\<And>a b. \<exists>c. compareSlowRelays a b = Inr c"
    by (simp add: compareSlowRelays_def)
  then obtain ys where ys: "sortWith compareSlowRelays xs = Inr ys"
    using sortWith_total [of compareSlowRelays xs] by blast
  have "sorted_wrt slowRelayBefore ys \<and> set ys = set xs"
  proof (rule sortWith_sorted [of slowRelayBefore "\<lambda>_. True" compareSlowRelays xs ys])
    show "list_all (\<lambda>_. True) xs" by (simp add: list_all_iff)
  qed (auto simp: ys slowRelayBefore_def compareSlowRelays_def split: if_splits)
  with ys sortWith_length [OF ys] show ?thesis by auto
qed

section \<open>The sort does not depend on the order it is given\<close>

lemma insertSorted_mset: "insertSorted cmp x ys = Inr zs \<Longrightarrow> mset zs = add_mset x (mset ys)"
  by (induction ys arbitrary: zs) (auto simp: bindE_Inr_iff split: if_splits)

lemma sortWith_mset: "sortWith cmp xs = Inr ys \<Longrightarrow> mset ys = mset xs"
  by (induction xs arbitrary: ys) (auto simp: bindE_Inr_iff dest: insertSorted_mset)

lemma sorted_wrt_unique:
  assumes asym: "\<And>a b. R a b \<Longrightarrow> \<not> R b a"
  shows "sorted_wrt R xs \<Longrightarrow> sorted_wrt R ys \<Longrightarrow> mset xs = mset ys \<Longrightarrow> xs = ys"
proof (induction xs arbitrary: ys)
  case Nil
  then show ?case by simp
next
  case (Cons x xs)
  from Cons.prems(3) obtain y ys' where ys: "ys = y # ys'" by (cases ys) auto
  have xy: "x = y"
  proof (rule ccontr)
    assume ne: "x \<noteq> y"
    have "x \<in> set ys" using Cons.prems(3) by (metis list.set_intros(1) mset_eq_setD)
    with ne ys have "x \<in> set ys'" by simp
    with Cons.prems(2) ys have 1: "R y x" by simp
    have "y \<in> set (x # xs)" using Cons.prems(3) ys by (metis list.set_intros(1) mset_eq_setD)
    with ne have "y \<in> set xs" by simp
    with Cons.prems(1) have "R x y" by simp
    with 1 asym show False by blast
  qed
  with Cons.prems(3) ys have "mset xs = mset ys'" by simp
  from Cons.IH [OF _ _ this] Cons.prems(1,2) ys xy show ?case by simp
qed

lemma insertSorted_Inl:
  "insertSorted cmp x ys = Inl e \<Longrightarrow> \<exists>y \<in> set ys. cmp x y = Inl e"
proof (induction ys)
  case Nil
  then show ?case by simp
next
  case (Cons y ys)
  show ?case
  proof (cases "cmp x y")
    case (Inl e')
    with Cons.prems show ?thesis by simp
  next
    case (Inr c)
    with Cons.prems have "insertSorted cmp x ys = Inl e"
      by (cases "insertSorted cmp x ys") (auto split: if_splits)
    from Cons.IH [OF this] show ?thesis by auto
  qed
qed

lemma sortWith_Inl:
  "sortWith cmp xs = Inl e \<Longrightarrow> \<exists>a b. {#a, b#} \<subseteq># mset xs \<and> cmp a b = Inl e"
proof (induction xs)
  case Nil
  then show ?case by simp
next
  case (Cons x xs)
  show ?case
  proof (cases "sortWith cmp xs")
    case (Inl e')
    with Cons.prems have "e' = e" by simp
    with Cons.IH Inl obtain a b where "{#a, b#} \<subseteq># mset xs" "cmp a b = Inl e" by blast
    moreover have "mset xs \<subseteq># mset (x # xs)" by simp
    ultimately show ?thesis by (meson subset_mset.order_trans)
  next
    case (Inr ys)
    with Cons.prems have "insertSorted cmp x ys = Inl e" by simp
    from insertSorted_Inl [OF this] obtain y where y: "y \<in> set ys" "cmp x y = Inl e" by blast
    from sortWith_mset [OF Inr] y(1) have "y \<in># mset xs" by (metis set_mset_mset)
    then have "{#x, y#} \<subseteq># mset (x # xs)" by (simp add: mset_subset_eq_add_mset_cancel)
    with y(2) show ?thesis by blast
  qed
qed

lemma sorted_wrt_pair:
  "sorted_wrt R zs \<Longrightarrow> {#a, b#} \<subseteq># mset zs \<Longrightarrow> R a b \<or> R b a"
proof (induction zs)
  case Nil
  then show ?case by simp
next
  case (Cons z zs)
  consider (a) "a = z" | (b) "a \<noteq> z" "b = z" | (n) "a \<noteq> z" "b \<noteq> z" by blast
  then show ?case
  proof cases
    case a
    with Cons.prems(2) have "b \<in># mset zs" by (simp add: mset_subset_eq_add_mset_cancel)
    with Cons.prems(1) a show ?thesis by simp
  next
    case b
    with Cons.prems(2) have "{#z, a#} \<subseteq># add_mset z (mset zs)" by (simp add: add_mset_commute)
    then have "a \<in># mset zs" by (simp add: mset_subset_eq_add_mset_cancel)
    with Cons.prems(1) b show ?thesis by simp
  next
    case n
    have "{#a, b#} \<subseteq># mset zs"
    proof -
      have "count {#a, b#} x \<le> count (mset zs) x" for x
        using Cons.prems(2) [unfolded subseteq_mset_def, rule_format, of x] n
        by (cases "x = z") auto
      then show ?thesis by (simp add: subseteq_mset_def)
    qed
    with Cons.IH Cons.prems(1) show ?thesis by simp
  qed
qed

lemma sortWith_permuted:
  assumes asym: "\<And>a b. R a b \<Longrightarrow> \<not> R b a"
    and trans: "\<And>a b c. R a b \<Longrightarrow> R b c \<Longrightarrow> R a c"
    and le: "\<And>a b c. P a \<Longrightarrow> P b \<Longrightarrow> cmp a b = Inr c \<Longrightarrow> c \<le> 0 \<Longrightarrow> R a b"
    and gt: "\<And>a b c. P a \<Longrightarrow> P b \<Longrightarrow> cmp a b = Inr c \<Longrightarrow> 0 < c \<Longrightarrow> R b a"
    and tie: "\<And>a b e. P a \<Longrightarrow> P b \<Longrightarrow> cmp a b = Inl e \<Longrightarrow> e = E \<and> \<not> R a b \<and> \<not> R b a"
    and P: "list_all P xs"
    and perm: "mset xs = mset ys"
  shows "sortWith cmp xs = sortWith cmp ys"
proof -
  have Pys: "list_all P ys"
    using P perm by (metis list_all_iff mset_eq_setD)
  have fails: "e = E \<and> \<not> sorted_wrt R zs"
    if "list_all P us" "sortWith cmp us = Inl e" "mset zs = mset us" for us zs e
  proof -
    from sortWith_Inl [OF that(2)] obtain a b where
      ab: "{#a, b#} \<subseteq># mset us" and c: "cmp a b = Inl e" by blast
    have "a \<in># {#a, b#}" "b \<in># {#a, b#}" by simp_all
    with ab have "a \<in># mset us" "b \<in># mset us"
      by (blast dest: mset_subset_eqD)+
    then have "P a" "P b" using that(1) by (simp_all add: list_all_iff)
    from tie [OF this c] have t: "e = E" "\<not> R a b" "\<not> R b a" by auto
    from ab that(3) have "{#a, b#} \<subseteq># mset zs" by simp
    with sorted_wrt_pair [of R zs a b] t show ?thesis by blast
  qed
  have sorts: "sorted_wrt R vs \<and> mset vs = mset us"
    if "list_all P us" "sortWith cmp us = Inr vs" for us vs
  proof -
    have "sorted_wrt R vs \<and> set vs = set us"
    proof (rule sortWith_sorted [of R P cmp us vs])
      show "R a c" if "R a b" "R b c" for a b c using trans that .
      show "R a b" if "P a" "P b" "cmp a b = Inr c" "c \<le> 0" for a b c using le that .
      show "R b a" if "P a" "P b" "cmp a b = Inr c" "0 < c" for a b c using gt that .
    qed (fact that)+
    with sortWith_mset [OF that(2)] show ?thesis by simp
  qed
  show ?thesis
  proof (cases "sortWith cmp xs")
    case (Inl e)
    from fails [OF P Inl refl] have e: "e = E" by simp
    show ?thesis
    proof (cases "sortWith cmp ys")
      case (Inl e')
      from fails [OF Pys Inl refl] e \<open>sortWith cmp xs = Inl e\<close> Inl show ?thesis by simp
    next
      case (Inr vs)
      from sorts [OF Pys Inr] perm have "sorted_wrt R vs" "mset vs = mset xs" by simp_all
      with fails [OF P Inl, of vs] show ?thesis by simp
    qed
  next
    case (Inr us)
    from sorts [OF P Inr] have u: "sorted_wrt R us" "mset us = mset xs" by simp_all
    show ?thesis
    proof (cases "sortWith cmp ys")
      case (Inl e')
      from fails [OF Pys Inl, of us] u perm show ?thesis by simp
    next
      case (Inr vs)
      from sorts [OF Pys Inr] have v: "sorted_wrt R vs" "mset vs = mset ys" by simp_all
      from sorted_wrt_unique [of R us vs, OF asym u(1) v(1)] u(2) v(2) perm
      have "us = vs" by simp
      with Inr \<open>sortWith cmp xs = Inr us\<close> show ?thesis by simp
    qed
  qed
qed

lemma sorted_wrt_distinct_keys:
  assumes "sorted_wrt R xs" and "distinct (map key xs)"
  shows "sorted_wrt (\<lambda>a b. R a b \<and> key a \<noteq> key b) xs"
  using assms by (induction xs) auto


section \<open>The steps of validateRootBundle\<close>

lemma list_ex_zip_index:
  assumes "length xs = n"
  shows "list_ex P (zip xs [0 ..< n]) \<longleftrightarrow> (\<exists>i < n. P (xs ! i, i))"
proof
  assume "list_ex P (zip xs [0 ..< n])"
  then obtain a b where ab: "(a, b) \<in> set (zip xs [0 ..< n])" and P: "P (a, b)"
    by (auto simp: list_ex_iff)
  from ab obtain i where "i < n" "a = xs ! i" "b = i"
    using assms by (auto simp: in_set_zip)
  with P show "\<exists>i < n. P (xs ! i, i)" by blast
next
  assume "\<exists>i < n. P (xs ! i, i)"
  then obtain i where i: "i < n" and P: "P (xs ! i, i)" by blast
  have "(xs ! i, i) \<in> set (zip xs [0 ..< n])"
    unfolding in_set_zip using i assms by (intro exI [of _ i]) simp
  with P show "list_ex P (zip xs [0 ..< n])" by (auto simp: list_ex_iff)
qed

lemma validateRootBundle_to_blocks:
  assumes "HubPoolClient.isUpdated (hubPoolClient (clients dw))"
    and "getNetworkChainId (hubPoolClient (clients dw)) = Inr cid"
    and "hasPendingProposal (hubPoolClient (clients dw))"
    and "currentTime (hubPoolClient (clients dw))
           \<le> challengePeriodEndTimestamp (getPendingRootBundleProposal (hubPoolClient (clients dw)))"
  shows "validateRootBundle U dw w =
           (if poolRebalanceRoot (getPendingRootBundleProposal (hubPoolClient (clients dw)))
                 = EMPTY_MERKLE_ROOT U
            then bindM (logger Debug ''Dataworker#validate''
                          ''Empty pool rebalance root, submitting dispute'') (\<lambda>_.
                 submitDisputeWithMrkdwn cid
                   ''Disputed pending root bundle with empty pool rebalance root'')
            else validateBundleBlocks U dw cid
                   (getPendingRootBundleProposal (hubPoolClient (clients dw))))
             (w\<lparr>logs := logs w @ [(Debug, ''Dataworker#validate'', ''Found pending proposal'')]\<rparr>)"
  using assms by (simp add: validateRootBundle_def Let_def bindM_apply liftE_apply logger_apply)

lemma validateBundleBlocks_in_range:
  assumes "getWidestPossibleExpectedBlockRange dw = Inr W"
    and "length (bundleEvaluationBlockNumbers pending) = length W"
    and "\<forall>i < length W. fst (W ! i) \<le> bundleEvaluationBlockNumbers pending ! i"
  shows "validateBundleBlocks U dw cid pending w =
           (if \<exists>i < length W. bundleEvaluationBlockNumbers pending ! i > snd (W ! i)
            then
              if \<exists>i < length W. bundleEvaluationBlockNumbers pending ! i
                                   > snd (W ! i) + endBlockBuffersOf dw ! i
              then Inr ((), w\<lparr>logs := logs w @
                      [(Debug, ''Dataworker#validate'',
                        ''A bundle end block is > latest block + buffer for its chain, submitting dispute'')],
                    transactions := transactions w @
                      [disputeTransaction cid
                         (generateMarkdownForDisputeInvalidBundleBlocks U dw pending W
                            (endBlockBuffersOf dw))]\<rparr>)
              else Inr ((), w\<lparr>logs := logs w @
                      [(Debug, ''Dataworker#validate'',
                        ''A bundle end block is > latest block but within buffer, skipping'')]\<rparr>)
            else validateRebuiltRoots U dw cid pending W w)"
proof -
  let ?blocks = "bundleEvaluationBlockNumbers pending"
  have lt: "list_ex (\<lambda>(block, index). block < fst (W ! index)) (zip ?blocks [0 ..< length W])
              = False"
    using assms(3) by (auto simp: list_ex_zip_index [OF assms(2)])
  have gt: "list_ex (\<lambda>(block, index). block > snd (W ! index)) (zip ?blocks [0 ..< length W])
              = (\<exists>i < length W. ?blocks ! i > snd (W ! i))"
    by (simp add: list_ex_zip_index [OF assms(2)])
  have gtb: "list_ex (\<lambda>(block, index). block > snd (W ! index) + endBlockBuffersOf dw ! index)
                (zip ?blocks [0 ..< length W])
              = (\<exists>i < length W. ?blocks ! i > snd (W ! i) + endBlockBuffersOf dw ! i)"
    by (simp add: list_ex_zip_index [OF assms(2)])
  show ?thesis
  proof (cases "\<exists>i < length W. ?blocks ! i > snd (W ! i)")
    case False
    then have c1: "(\<exists>i < length W. ?blocks ! i > snd (W ! i)) = False" by blast
    show ?thesis
      unfolding validateBundleBlocks_def
      by (simp add: assms(1,2) lt gt c1 Let_def M_apply)
  next
    case True
    then have c1: "(\<exists>i < length W. ?blocks ! i > snd (W ! i)) = True" by blast
    show ?thesis
    proof (cases "\<exists>i < length W. ?blocks ! i > snd (W ! i) + endBlockBuffersOf dw ! i")
      case False
      then have c2: "(\<exists>i < length W. ?blocks ! i > snd (W ! i) + endBlockBuffersOf dw ! i) = False"
        by blast
      show ?thesis
        unfolding validateBundleBlocks_def
        by (simp add: assms(1,2) lt gt gtb c1 c2 Let_def M_apply)
    next
      case inner: True
      then have c2: "(\<exists>i < length W. ?blocks ! i > snd (W ! i) + endBlockBuffersOf dw ! i) = True"
        by blast
      show ?thesis
        unfolding validateBundleBlocks_def
        by (simp add: assms(1,2) lt gt gtb c1 c2 Let_def M_apply)
    qed
  qed
qed


lemma validateRootBundle_after_checks:
  assumes "passesEarlierChecks U dw cid W"
  shows "validateRootBundle U dw w =
           validateBundleBlocks U dw cid (getPendingRootBundleProposal (hubPoolClient (clients dw)))
             (w\<lparr>logs := logs w @ [(Debug, ''Dataworker#validate'', ''Found pending proposal'')]\<rparr>)"
  using assms validateRootBundle_to_blocks [of dw cid U w]
  by (simp add: passesEarlierChecks_def)

lemma validateRebuiltRoots_outcome:
  assumes r: "getBlockRangeForChain (impliedBlockRanges pending W) 1
                (chainIdListForBundleEvaluationBlockNumbers dw) = Inr r"
    and sc: "constructSpokePoolClientsForBlockAndUpdate dw (snd r) = Inr sc"
    and pool: "map_sum id fst (buildPoolRebalanceRoot U dw (impliedBlockRanges pending W) sc w0)
                 = Inr pool"
    and refund: "map_sum id fst (buildRelayerRefundRoot U dw (impliedBlockRanges pending W) sc w0)
                   = Inr refund"
    and slow: "map_sum id fst (buildSlowRelayRoot U dw (impliedBlockRanges pending W) sc w0)
                 = Inr slow"
    and md: "generateMarkdownForRootBundle U cid (impliedBlockRanges pending W)
               (leaves pool) (tree pool) (leaves refund) (tree refund) (leaves slow) (tree slow)
               = Inr md"
  shows "\<exists>w'. validateRebuiltRoots U dw cid pending W w = Inr ((), w') \<and>
              transactions w' =
                (if int (length (leaves pool)) \<noteq> unclaimedPoolRebalanceLeafCount pending
                    \<or> tree pool \<noteq> poolRebalanceRoot pending
                    \<or> tree refund \<noteq> relayerRefundRoot pending
                    \<or> tree slow \<noteq> slowRelayRoot pending
                 then transactions w @
                        [disputeTransaction cid (generateMarkdownForDispute U pending @ NL @ md)]
                 else transactions w)"
proof -
  let ?R = "impliedBlockRanges pending W"
  have "\<forall>w. \<exists>ls. buildPoolRebalanceRoot U dw ?R sc w = Inr (pool, w\<lparr>logs := logs w @ ls\<rparr>)"
    using builder_run [OF wi_buildPoolRebalanceRoot ol_buildPoolRebalanceRoot pool] by blast
  then obtain f1 where f1:
    "\<And>w. buildPoolRebalanceRoot U dw ?R sc w = Inr (pool, w\<lparr>logs := logs w @ f1 w\<rparr>)"
    by metis
  have "\<forall>w. \<exists>ls. buildRelayerRefundRoot U dw ?R sc w = Inr (refund, w\<lparr>logs := logs w @ ls\<rparr>)"
    using builder_run [OF wi_buildRelayerRefundRoot ol_buildRelayerRefundRoot refund] by blast
  then obtain f2 where f2:
    "\<And>w. buildRelayerRefundRoot U dw ?R sc w = Inr (refund, w\<lparr>logs := logs w @ f2 w\<rparr>)"
    by metis
  have "\<forall>w. \<exists>ls. buildSlowRelayRoot U dw ?R sc w = Inr (slow, w\<lparr>logs := logs w @ ls\<rparr>)"
    using builder_run [OF wi_buildSlowRelayRoot ol_buildSlowRelayRoot slow] by blast
  then obtain f3 where f3:
    "\<And>w. buildSlowRelayRoot U dw ?R sc w = Inr (slow, w\<lparr>logs := logs w @ f3 w\<rparr>)"
    by metis
  have disp: "\<And>w. submitDisputeWithRoots U cid pending ?R pool refund slow w
                 = Inr ((), w\<lparr>transactions := transactions w @
                      [disputeTransaction cid (generateMarkdownForDispute U pending @ NL @ md)]\<rparr>)"
    by (simp add: submitDisputeWithRoots_def M_apply md)
  show ?thesis
    unfolding validateRebuiltRoots_def
    by (simp add: Let_def bindM_apply liftE_apply logger_apply r sc f1 f2 f3 disp)
qed

lemma validateRootBundle_rebuild_outcome:
  assumes checks: "passesEarlierChecks U dw cid W"
    and pending: "pending = getPendingRootBundleProposal (hubPoolClient (clients dw))"
    and ends: "\<forall>i < length W. bundleEvaluationBlockNumbers pending ! i \<le> snd (W ! i)"
    and r: "getBlockRangeForChain (impliedBlockRanges pending W) 1
                (chainIdListForBundleEvaluationBlockNumbers dw) = Inr r"
    and sc: "constructSpokePoolClientsForBlockAndUpdate dw (snd r) = Inr sc"
    and pool: "map_sum id fst (buildPoolRebalanceRoot U dw (impliedBlockRanges pending W) sc w0)
                 = Inr pool"
    and refund: "map_sum id fst (buildRelayerRefundRoot U dw (impliedBlockRanges pending W) sc w0)
                   = Inr refund"
    and slow: "map_sum id fst (buildSlowRelayRoot U dw (impliedBlockRanges pending W) sc w0)
                 = Inr slow"
    and md: "generateMarkdownForRootBundle U cid (impliedBlockRanges pending W)
               (leaves pool) (tree pool) (leaves refund) (tree refund) (leaves slow) (tree slow)
               = Inr md"
  shows "\<exists>w'. validateRootBundle U dw w = Inr ((), w') \<and>
              transactions w' =
                (if int (length (leaves pool)) \<noteq> unclaimedPoolRebalanceLeafCount pending
                    \<or> tree pool \<noteq> poolRebalanceRoot pending
                    \<or> tree refund \<noteq> relayerRefundRoot pending
                    \<or> tree slow \<noteq> slowRelayRoot pending
                 then transactions w @
                        [disputeTransaction cid (generateMarkdownForDispute U pending @ NL @ md)]
                 else transactions w)"
proof -
  let ?w1 = "w\<lparr>logs := logs w @ [(Debug, ''Dataworker#validate'', ''Found pending proposal'')]\<rparr>"
  have step: "validateRootBundle U dw w = validateBundleBlocks U dw cid pending ?w1"
    using validateRootBundle_after_checks [OF checks] pending by simp
  have W: "getWidestPossibleExpectedBlockRange dw = Inr W"
    and len: "length (bundleEvaluationBlockNumbers pending) = length W"
    and start: "\<forall>i < length W. fst (W ! i) \<le> bundleEvaluationBlockNumbers pending ! i"
    using checks pending by (simp_all add: passesEarlierChecks_def)
  from ends have c1: "(\<exists>i < length W. bundleEvaluationBlockNumbers pending ! i > snd (W ! i)) = False"
    by (auto simp: not_less)
  have eq: "validateRootBundle U dw w = validateRebuiltRoots U dw cid pending W ?w1"
    unfolding step validateBundleBlocks_in_range [OF W len start, of U cid ?w1] c1 by simp
  have tx: "transactions ?w1 = transactions w" by simp
  from validateRebuiltRoots_outcome [OF r sc pool refund slow md, of ?w1]
  show ?thesis unfolding eq tx .
qed


section \<open>The bundle over two chains, evaluated\<close>

lemmas ex_defs = exUtils_def exDataworker_def exHubPoolClient_def exSpokePoolClients_def
  exSpokePoolClient_def exFills_def exFill_def exDeposit_def exPending_def
  exUpdateGroup_def exEmptyGroup_def exLpFee_def exInRange_def exAddBalance_def exPoolLeaf_def
  exDigest_def exCompareAddresses_def exWorld_def

lemma ex_widest:
  "getWidestPossibleExpectedBlockRange (exDataworker p t b) = Inr [(100, 200), (500, 600)]"
  by (simp add: getWidestPossibleExpectedBlockRange_def ex_defs)

lemma ex_construct:
  "constructSpokePoolClientsForBlockAndUpdate (exDataworker p t b) blk = Inr exSpokePoolClients"
  by (simp add: constructSpokePoolClientsForBlockAndUpdate_def exDataworker_def exSpokePoolClients_def)

lemmas load_defs = loadData_def loadOrigin_def loadDestination_def processFill_def refundFill_def
  getSpokePoolClient_def getBlockRangeForChain_def Let_def Fill.truncate_def Deposit.truncate_def
  numberToString_def decimalString_def MAX_SAFE_INTEGER_def natToString.simps

lemma ex_buildSlow:
  "map_sum id fst (buildSlowRelayRoot exUtils (exDataworker p t b) [(100, 200), (500, 600)]
      exSpokePoolClients w) =
   Inr \<lparr>leaves = [\<lparr>depositor = ''0xd1'', recipient = ''0xd2'',
            destinationToken = ''0xb1'', amount = 1000, originChainId = 1,
            destinationChainId = 10, realizedLpFeePct = 100000000000000000,
            relayerFeePct = 0, depositId = 7\<rparr>],
        tree = ''0x51171000''\<rparr>"
  by (simp add: buildSlowRelayRoot_def slowRelayRootOf_def compareSlowRelays_def load_defs M_apply ex_defs)

lemma ex_buildPool:
  "map_sum id fst (buildPoolRebalanceRoot exUtils (exDataworker p t b) [(100, 200), (500, 600)]
      exSpokePoolClients w) =
   Inr \<lparr>leaves =
        [\<lparr>PoolRebalanceLeaf.chainId = 1, PoolRebalanceLeaf.groupIndex = 0, bundleLpFees = [0],
            netSendAmounts = [- 1000], PoolRebalanceLeaf.runningBalances = [0],
            l1Tokens = [''0xa1''], PoolRebalanceLeaf.leafId = 0\<rparr>,
         \<lparr>PoolRebalanceLeaf.chainId = 10, PoolRebalanceLeaf.groupIndex = 0,
            bundleLpFees = [80], netSendAmounts = [720],
            PoolRebalanceLeaf.runningBalances = [0], l1Tokens = [''0xa1''],
            PoolRebalanceLeaf.leafId = 1\<rparr>],
        tree = ''0x50101000101720'',
        PoolRebalanceRoot.runningBalances =
          [(1, [(''0xa1'', - 1000)]), (10, [(''0xa1'', 720)])],
        PoolRebalanceRoot.realizedLpFees = [(10, [(''0xa1'', 80)])]\<rparr>"
  by (simp add: buildPoolRebalanceRoot_def getNetSendAmountForL1Token_def load_defs M_apply ex_defs)

lemma ex_buildRefund:
  "map_sum id fst (buildRelayerRefundRoot exUtils (exDataworker p t b) [(100, 200), (500, 600)]
      exSpokePoolClients w) =
   Inr \<lparr>leaves =
        [\<lparr>groupIndex = None, amountToReturn = 1000,
            chainId = 1, refundAmounts = [], leafId = 0,
            l2TokenAddress = ''0xa1'', refundAddresses = []\<rparr>,
         \<lparr>groupIndex = None, amountToReturn = 0,
            chainId = 10, refundAmounts = [360, 270], leafId = 1,
            l2TokenAddress = ''0xb1'',
            refundAddresses = [''0x0c'', ''0x0a'']\<rparr>,
         \<lparr>groupIndex = None, amountToReturn = 0,
            chainId = 10, refundAmounts = [90], leafId = 2,
            l2TokenAddress = ''0xb1'', refundAddresses = [''0x0b'']\<rparr>],
        tree = ''0x521010001010360270102090''\<rparr>"
  by (simp add: buildRelayerRefundRoot_def buildRelayerRefundLeaves_def relayerRefundLeavesOf_def relayerRefundRootOf_def buildPoolRebalanceRoot_def getNetSendAmountForL1Token_def
      refundLeavesForChain_def refundLeavesForGroup_def refundLeafLoop.simps slice_def
      transferThresholdFor_def maxRefundCountFor_def
      getAmountToReturnForRelayerRefundLeaf_def returnLeavesForPoolLeaf_def
      returnLeafForNetSendAmount_def compareRefundLeaves_def indexLeaves_def
      isDigitOf_def digitVal_def
      load_defs M_apply ex_defs)


lemma ex_checks:
  assumes "t \<le> 7200" and "p1 \<noteq> EMPTY_MERKLE_ROOT exUtils" and "100 \<le> e1" and "500 \<le> e10"
  shows "passesEarlierChecks exUtils (exDataworker (exPending [e1, e10] n p1 p2 p3) t b) 1
           [(100, 200), (500, 600)]"
  using assms
  by (simp add: passesEarlierChecks_def ex_widest)
     (simp add: exDataworker_def exHubPoolClient_def exPending_def All_less_Suc numeral_2_eq_2)

lemma ex_implied:
  "impliedBlockRanges (exPending [200, 600] n p1 p2 p3) [(100, 200), (500, 600)]
     = [(100, 200), (500, 600)]"
  by (simp add: impliedBlockRanges_def exPending_def numeral_2_eq_2)

lemma ex_pending:
  "getPendingRootBundleProposal (hubPoolClient (clients (exDataworker p t b))) = p"
  by (simp add: exDataworker_def exHubPoolClient_def)

lemma ex_md:
  "generateMarkdownForRootBundle exUtils c R pl ''0x50101000101720'' rl rr sl sr
     = Inr ''*PoolRebalance* root:0x50101000''"
  by (simp add: exUtils_def shortenHexString_def)

lemma ex_range1:
  "getBlockRangeForChain [(100, 200), (500, 600)] 1
     (chainIdListForBundleEvaluationBlockNumbers (exDataworker p t b)) = Inr (100, 200)"
  by (simp add: getBlockRangeForChain_def exDataworker_def)

lemma map_sum_tree:
  "map_sum id fst X = Inr r \<Longrightarrow> map_sum id (\<lambda>x. tree (fst x)) X = Inr (tree r)"
  by (cases X) auto

section \<open>The chunks of a refund group\<close>




section \<open>The classes of a fill\<close>





section \<open>The relayer refund leaves and their order\<close>

lemma forEachE_invariant:
  assumes step: "\<And>s x s'. P s \<Longrightarrow> f s x = Inr s' \<Longrightarrow> P s'"
  shows "P s \<Longrightarrow> forEachE f s xs = Inr s' \<Longrightarrow> P s'"
proof (induction xs arbitrary: s)
  case Nil
  then show ?case by simp
next
  case (Cons x xs)
  from Cons.prems(2) obtain s1 where 1: "f s x = Inr s1" and 2: "forEachE f s1 xs = Inr s'"
    by (auto simp: bindE_Inr_iff)
  from step [OF Cons.prems(1) 1] have "P s1" .
  from Cons.IH [OF this 2] show ?case .
qed

lemma refundLeafLoop_hasGroupIndex:
  assumes "refundLeafLoop sr a chain tok m i acc = Some ls"
  shows "list_all hasGroupIndex acc \<longrightarrow> list_all hasGroupIndex ls"
proof (rule refundLeafLoop.raw_induct
    [where P = "\<lambda>sr a chain tok m i acc ls. list_all hasGroupIndex acc \<longrightarrow> list_all hasGroupIndex ls",
     OF _ assms])
  fix loop :: "(address \<times> BigNumber) list \<Rightarrow> BigNumber \<Rightarrow> int \<Rightarrow> address \<Rightarrow> int \<Rightarrow> int
                 \<Rightarrow> RelayerRefundLeaf list \<Rightarrow> RelayerRefundLeaf list option"
    and sr a chain tok m i acc ls
  assume IH: "\<And>a chain tok m i acc sr ls.
                 loop a chain tok m i acc sr = Some ls
                 \<Longrightarrow> list_all hasGroupIndex sr \<longrightarrow> list_all hasGroupIndex ls"
    and body: "(if i < int (length sr) then
        loop sr a chain tok m (i + m)
          (acc @
             [\<lparr>groupIndex = Some i,
               amountToReturn = (if i = 0 then a else 0),
               chainId = chain,
               refundAmounts = map snd (slice sr i (i + m)),
               leafId = 0,
               l2TokenAddress = tok,
               refundAddresses = map fst (slice sr i (i + m))\<rparr>])
      else Some acc) = Some ls"
  show "list_all hasGroupIndex acc \<longrightarrow> list_all hasGroupIndex ls"
  proof (cases "i < int (length sr)")
    case True
    with body IH show ?thesis by (fastforce simp: hasGroupIndex_def)
  next
    case False
    with body show ?thesis by simp
  qed
qed

lemma refundLeavesForGroup_hasGroupIndex:
  assumes "list_all hasGroupIndex acc"
    and "refundLeavesForGroup U dw endBlock balances chain acc entry = Inr ls"
  shows "list_all hasGroupIndex ls"
proof -
  from assms(2) obtain sr a m where
    "(case refundLeafLoop sr a chain (fst entry) m 0 acc of
        None \<Rightarrow> Inl Diverges | Some leaves' \<Rightarrow> Inr leaves') = Inr ls"
    by (auto simp: refundLeavesForGroup_def Let_def bindE_Inr_iff)
  then have "refundLeafLoop sr a chain (fst entry) m 0 acc = Some ls"
    by (auto split: option.splits)
  with refundLeafLoop_hasGroupIndex assms(1) show ?thesis by blast
qed

lemma refundLeavesForChain_hasGroupIndex:
  assumes "list_all hasGroupIndex acc"
    and "refundLeavesForChain U dw endBlock balances acc chainEntry = Inr ls"
  shows "list_all hasGroupIndex ls"
  using assms(2) unfolding refundLeavesForChain_def
  by (rule forEachE_invariant [where P = "list_all hasGroupIndex", rotated 2])
     (auto intro: refundLeavesForGroup_hasGroupIndex assms(1))

lemma returnLeafForNetSendAmount_hasGroupIndex:
  assumes "list_all hasGroupIndex acc"
    and "returnLeafForNetSendAmount dw endBlock balances leaf acc entry = Inr ls"
  shows "list_all hasGroupIndex ls"
  using assms
  by (auto simp: returnLeafForNetSendAmount_def Let_def bindE_Inr_iff hasGroupIndex_def
           split: if_splits)

lemma returnLeavesForPoolLeaf_hasGroupIndex:
  assumes "list_all hasGroupIndex acc"
    and "returnLeavesForPoolLeaf dw endBlock balances acc leaf = Inr ls"
  shows "list_all hasGroupIndex ls"
  using assms(2) unfolding returnLeavesForPoolLeaf_def
  by (rule forEachE_invariant [where P = "list_all hasGroupIndex", rotated 2])
     (auto intro: returnLeafForNetSendAmount_hasGroupIndex assms(1))

lemma comparator_facts:
  assumes "isComparator cmp"
  shows "cmp a b < 0 \<Longrightarrow> cmp b c < 0 \<Longrightarrow> cmp a c < 0"
    and "cmp a b < 0 \<Longrightarrow> cmp b c = 0 \<Longrightarrow> cmp a c < 0"
    and "cmp a b = 0 \<Longrightarrow> cmp b c < 0 \<Longrightarrow> cmp a c < 0"
    and "cmp a b = 0 \<Longrightarrow> cmp b c = 0 \<Longrightarrow> cmp a c = 0"
    and "0 < cmp a b \<Longrightarrow> cmp b a < 0"
    and "cmp a b = 0 \<Longrightarrow> cmp b a = 0"
proof -
  have flip: "(cmp x y < 0) = (0 < cmp y x)" for x y
    using assms unfolding isComparator_def by blast
  have trans: "cmp x y \<le> 0 \<Longrightarrow> cmp y z \<le> 0 \<Longrightarrow> cmp x z \<le> 0" for x y z
    using assms unfolding isComparator_def by blast
  have sym: "cmp x y = 0 \<Longrightarrow> cmp y x = 0" for x y
    using flip [of x y] flip [of y x] by linarith
  have strict: "cmp x y \<le> 0 \<Longrightarrow> cmp y z \<le> 0 \<Longrightarrow> cmp x y < 0 \<or> cmp y z < 0
                  \<Longrightarrow> cmp x z < 0" for x y z
  proof -
    assume xy: "cmp x y \<le> 0" and yz: "cmp y z \<le> 0" and one: "cmp x y < 0 \<or> cmp y z < 0"
    have le: "cmp x z \<le> 0" using trans [OF xy yz] .
    have "cmp x z \<noteq> 0"
    proof
      assume "cmp x z = 0"
      then have zx: "cmp z x \<le> 0" using sym [of x z] by simp
      from trans [OF zx xy] have "cmp z y \<le> 0" .
      then have nyz: "\<not> cmp y z < 0" using flip [of y z] by simp
      from trans [OF yz zx] have "cmp y x \<le> 0" .
      then have "\<not> cmp x y < 0" using flip [of x y] by simp
      with nyz one show False by blast
    qed
    with le show ?thesis by linarith
  qed
  show "0 < cmp a b \<Longrightarrow> cmp b a < 0" using flip [of b a] by simp
  show "cmp a b = 0 \<Longrightarrow> cmp b a = 0" by (rule sym)
  show "cmp a b < 0 \<Longrightarrow> cmp b c < 0 \<Longrightarrow> cmp a c < 0"
    using strict [of a b c] by simp
  show "cmp a b < 0 \<Longrightarrow> cmp b c = 0 \<Longrightarrow> cmp a c < 0"
    using strict [of a b c] by simp
  show "cmp a b = 0 \<Longrightarrow> cmp b c < 0 \<Longrightarrow> cmp a c < 0"
    using strict [of a b c] by simp
  show "cmp a b = 0 \<Longrightarrow> cmp b c = 0 \<Longrightarrow> cmp a c = 0"
  proof -
    assume ab: "cmp a b = 0" and bc: "cmp b c = 0"
    have "cmp a c \<le> 0" using trans [of a b c] ab bc by simp
    moreover have "cmp c a \<le> 0" using trans [of c b a] sym [OF ab] sym [OF bc] by simp
    then have "\<not> cmp a c < 0" using flip [of a c] by simp
    ultimately show "cmp a c = 0" by linarith
  qed
qed

lemma refundLeafBefore_trans:
  assumes cmp: "isComparator (compareAddresses U)"
    and ab: "refundLeafBefore U a b" and bc: "refundLeafBefore U b c"
  shows "refundLeafBefore U a c"
proof -
  let ?c = "compareAddresses U"
  let ?g = "\<lambda>x y. case (groupIndex x, groupIndex y) of (Some i, Some j) \<Rightarrow> i < j | _ \<Rightarrow> False"
  note F = comparator_facts [OF cmp]
  have gtrans: "?g a b \<Longrightarrow> ?g b c \<Longrightarrow> ?g a c"
    by (cases "groupIndex a"; cases "groupIndex b"; cases "groupIndex c") simp_all
  consider (chain) "chainId a < chainId b"
    | (addr) "chainId a = chainId b" "?c (l2TokenAddress a) (l2TokenAddress b) < 0"
    | (grp) "chainId a = chainId b" "?c (l2TokenAddress a) (l2TokenAddress b) = 0" "?g a b"
    using ab unfolding refundLeafBefore_def by blast
  then show ?thesis
  proof cases
    case chain
    with bc show ?thesis unfolding refundLeafBefore_def by auto
  next
    case addr
    consider (chain') "chainId b < chainId c"
      | (addr') "chainId b = chainId c" "?c (l2TokenAddress b) (l2TokenAddress c) < 0"
      | (grp') "chainId b = chainId c" "?c (l2TokenAddress b) (l2TokenAddress c) = 0" "?g b c"
      using bc unfolding refundLeafBefore_def by blast
    then show ?thesis
    proof cases
      case chain'
      with addr show ?thesis unfolding refundLeafBefore_def by simp
    next
      case addr'
      with addr F(1) [of "l2TokenAddress a" "l2TokenAddress b" "l2TokenAddress c"]
      show ?thesis unfolding refundLeafBefore_def by simp
    next
      case grp'
      with addr F(2) [of "l2TokenAddress a" "l2TokenAddress b" "l2TokenAddress c"]
      show ?thesis unfolding refundLeafBefore_def by simp
    qed
  next
    case grp
    consider (chain') "chainId b < chainId c"
      | (addr') "chainId b = chainId c" "?c (l2TokenAddress b) (l2TokenAddress c) < 0"
      | (grp') "chainId b = chainId c" "?c (l2TokenAddress b) (l2TokenAddress c) = 0" "?g b c"
      using bc unfolding refundLeafBefore_def by blast
    then show ?thesis
    proof cases
      case chain'
      with grp show ?thesis unfolding refundLeafBefore_def by simp
    next
      case addr'
      with grp F(3) [of "l2TokenAddress a" "l2TokenAddress b" "l2TokenAddress c"]
      show ?thesis unfolding refundLeafBefore_def by simp
    next
      case grp'
      with grp F(4) [of "l2TokenAddress a" "l2TokenAddress b" "l2TokenAddress c"]
        gtrans
      show ?thesis unfolding refundLeafBefore_def by simp
    qed
  qed
qed

lemma sortWith_compareRefundLeaves:
  assumes cmp: "isComparator (compareAddresses U)"
    and grp: "list_all hasGroupIndex ls"
    and sort: "sortWith (compareRefundLeaves U) ls = Inr sortedLs"
  shows "sorted_wrt (refundLeafBefore U) sortedLs \<and> set sortedLs = set ls"
proof (rule sortWith_sorted [of "refundLeafBefore U" hasGroupIndex "compareRefundLeaves U" ls sortedLs])
  show "refundLeafBefore U a b \<Longrightarrow> refundLeafBefore U b c \<Longrightarrow> refundLeafBefore U a c" for a b c
    using refundLeafBefore_trans [OF cmp] .
  show "refundLeafBefore U a b"
    if "hasGroupIndex a" "hasGroupIndex b" "compareRefundLeaves U a b = Inr c" "c \<le> 0" for a b c
    using that
    by (auto simp: compareRefundLeaves_def refundLeafBefore_def hasGroupIndex_def
             split: if_splits)
  show "refundLeafBefore U b a"
    if "hasGroupIndex a" "hasGroupIndex b" "compareRefundLeaves U a b = Inr c" "0 < c" for a b c
    using that comparator_facts(5,6) [OF cmp, of "l2TokenAddress a" "l2TokenAddress b"]
    by (auto simp: compareRefundLeaves_def refundLeafBefore_def hasGroupIndex_def
             split: if_splits)
  show "list_all hasGroupIndex ls" by (rule grp)
  show "sortWith (compareRefundLeaves U) ls = Inr sortedLs" by (rule sort)
qed

lemma indexLeaves_nth:
  "i < length ls \<Longrightarrow> indexLeaves ls ! i = (ls ! i)\<lparr>groupIndex := None, leafId := int i\<rparr>"
  by (simp add: indexLeaves_def)

lemma indexLeaves_length: "length (indexLeaves ls) = length ls"
  by (simp add: indexLeaves_def)

lemma indexLeaves_leafIds: "map leafId (indexLeaves ls) = map int [0 ..< length ls]"
  by (rule nth_equalityI) (simp_all add: indexLeaves_length indexLeaves_nth)

lemma indexLeaves_no_groupIndex: "\<forall>l \<in> set (indexLeaves ls). groupIndex l = None"
  by (auto simp: indexLeaves_def in_set_zip)

lemma indexLeaves_sorted:
  assumes "sorted_wrt (refundLeafBefore U) ls"
  shows "sorted_wrt (finalLeafBefore U) (indexLeaves ls)"
  unfolding sorted_wrt_iff_nth_less
proof (intro allI impI)
  fix i j assume ij: "i < j" and j: "j < length (indexLeaves ls)"
  then have "refundLeafBefore U (ls ! i) (ls ! j)"
    using assms by (simp add: sorted_wrt_iff_nth_less indexLeaves_length)
  then show "finalLeafBefore U (indexLeaves ls ! i) (indexLeaves ls ! j)"
    using ij j
    by (auto simp: indexLeaves_nth indexLeaves_length refundLeafBefore_def finalLeafBefore_def)
qed

lemma relayerRefundLeavesOf_hasGroupIndex:
  assumes "relayerRefundLeavesOf U dw endBlock fillsToRefund' pool = Inr ls"
  shows "list_all hasGroupIndex ls"
proof -
  from assms obtain refundLeaves where
    A: "forEachE (refundLeavesForChain U dw endBlock (PoolRebalanceRoot.runningBalances pool)) []
          fillsToRefund' = Inr refundLeaves"
    and B: "forEachE (returnLeavesForPoolLeaf dw endBlock (PoolRebalanceRoot.runningBalances pool))
              refundLeaves (leaves pool) = Inr ls"
    unfolding relayerRefundLeavesOf_def by (auto simp: bindE_Inr_iff)
  have "list_all hasGroupIndex refundLeaves"
    using A
    by (rule forEachE_invariant [where P = "list_all hasGroupIndex", rotated 2])
       (auto intro: refundLeavesForChain_hasGroupIndex)
  then show "list_all hasGroupIndex ls"
    using B
    by (rule forEachE_invariant [where P = "list_all hasGroupIndex", rotated 1])
       (auto intro: returnLeavesForPoolLeaf_hasGroupIndex)
qed

lemma buildRelayerRefundLeaves_hasGroupIndex:
  assumes "buildRelayerRefundLeaves U dw R sc w = Inr (ls, w')"
  shows "list_all hasGroupIndex ls"
proof -
  from assms obtain endBlock fillsToRefund' pool where
    "relayerRefundLeavesOf U dw endBlock fillsToRefund' pool = Inr ls"
    unfolding buildRelayerRefundLeaves_def Let_def
    by (auto simp: bindM_Inr_iff liftE_Inr_iff logger_def split: prod.splits)
  then show ?thesis by (rule relayerRefundLeavesOf_hasGroupIndex)
qed

lemma buildRelayerRefundRoot_parts:
  assumes "buildRelayerRefundRoot U dw R sc w = Inr (root, w')"
  shows "\<exists>ls sortedLs. buildRelayerRefundLeaves U dw R sc w = Inr (ls, w')
           \<and> list_all hasGroupIndex ls
           \<and> sortWith (compareRefundLeaves U) ls = Inr sortedLs
           \<and> leaves root = indexLeaves sortedLs
           \<and> tree root = buildRelayerRefundTree U (indexLeaves sortedLs)"
proof -
  from assms obtain ls sortedLs where
    A: "buildRelayerRefundLeaves U dw R sc w = Inr (ls, w')"
    and C: "sortWith (compareRefundLeaves U) ls = Inr sortedLs"
    and D: "root = \<lparr>leaves = indexLeaves sortedLs, tree = buildRelayerRefundTree U (indexLeaves sortedLs)\<rparr>"
    unfolding buildRelayerRefundRoot_def relayerRefundRootOf_def Let_def
    by (auto simp: bindM_Inr_iff liftE_Inr_iff bindE_Inr_iff)
  from buildRelayerRefundLeaves_hasGroupIndex [OF A] A C D show ?thesis by auto
qed

lemma buildSlowRelayRoot_parts:
  assumes "buildSlowRelayRoot U dw R sc w = Inr (root, w')"
  shows "\<exists>ls. sortWith compareSlowRelays ls = Inr (leaves root)"
  using assms unfolding buildSlowRelayRoot_def slowRelayRootOf_def Let_def
  by (auto simp: bindM_Inr_iff liftE_Inr_iff bindE_Inr_iff logger_def split: prod.splits)

lemma isComparator_exCompareAddresses: "isComparator (compareAddresses exUtils)"
  by (auto simp: isComparator_def exUtils_def exCompareAddresses_def)
section \<open>The leaves do not depend on the order of what they are made from\<close>

lemma mset_map_cong: "mset xs = mset ys \<Longrightarrow> mset (map f xs) = mset (map f ys)"
  by (simp only: mset_map)

lemma slowRelayBefore_strict_asym:
  "slowRelayBefore a b \<and> slowRelayKey a \<noteq> slowRelayKey b
     \<Longrightarrow> \<not> (slowRelayBefore b a \<and> slowRelayKey b \<noteq> slowRelayKey a)"
  by (auto simp: slowRelayBefore_def slowRelayKey_def)

lemma sortWith_compareSlowRelays_permuted:
  assumes perm: "mset xs = mset ys" and keys: "distinct (map slowRelayKey xs)"
  shows "sortWith compareSlowRelays xs = sortWith compareSlowRelays ys"
proof -
  from sortWith_compareSlowRelays [of xs] obtain us where
    us: "sortWith compareSlowRelays xs = Inr us" "sorted_wrt slowRelayBefore us" by blast
  from sortWith_compareSlowRelays [of ys] obtain vs where
    vs: "sortWith compareSlowRelays ys = Inr vs" "sorted_wrt slowRelayBefore vs" by blast
  have mu: "mset us = mset xs" using sortWith_mset [OF us(1)] .
  have mv: "mset vs = mset xs" using sortWith_mset [OF vs(1)] perm by simp
  have ku: "mset (map slowRelayKey us) = mset (map slowRelayKey xs)"
    using mu by (rule mset_map_cong)
  have kv: "mset (map slowRelayKey vs) = mset (map slowRelayKey xs)"
    using mv by (rule mset_map_cong)
  have du: "distinct (map slowRelayKey us)"
    using mset_eq_imp_distinct_iff [OF ku] keys by simp
  have dv: "distinct (map slowRelayKey vs)"
    using mset_eq_imp_distinct_iff [OF kv] keys by simp
  let ?R = "\<lambda>a b. slowRelayBefore a b \<and> slowRelayKey a \<noteq> slowRelayKey b"
  have "us = vs"
  proof (rule sorted_wrt_unique [of ?R])
    show "\<not> ?R b a" if "?R a b" for a b using slowRelayBefore_strict_asym [OF that] .
    show "sorted_wrt ?R us" using sorted_wrt_distinct_keys [OF us(2) du] .
    show "sorted_wrt ?R vs" using sorted_wrt_distinct_keys [OF vs(2) dv] .
    show "mset us = mset vs" using mu mv by simp
  qed
  with us(1) vs(1) show ?thesis by simp
qed

lemma slowRelayRootOf_permuted:
  assumes perm: "mset uds = mset uds'" and keys: "distinct (map unfilledDepositKey uds)"
  shows "slowRelayRootOf U uds = slowRelayRootOf U uds'"
proof -
  let ?leaf = "\<lambda>d. \<lparr>depositor = depositor (deposit d),
                       recipient = recipient (deposit d),
                       destinationToken = destinationToken (deposit d),
                       amount = amount (deposit d),
                       originChainId = originChainId (deposit d),
                       destinationChainId = destinationChainId (deposit d),
                       realizedLpFeePct = realizedLpFeePct (deposit d),
                       relayerFeePct = relayerFeePct (deposit d),
                       depositId = depositId (deposit d)\<rparr>"
  have k: "map slowRelayKey (map ?leaf uds) = map unfilledDepositKey uds"
    by (simp add: slowRelayKey_def unfilledDepositKey_def)
  have m: "mset (map ?leaf uds) = mset (map ?leaf uds')"
    using perm by (rule mset_map_cong)
  have "distinct (map slowRelayKey (map ?leaf uds))"
    unfolding k by (rule keys)
  from sortWith_compareSlowRelays_permuted [OF m this]
  have "sortWith compareSlowRelays (map ?leaf uds) = sortWith compareSlowRelays (map ?leaf uds')" .
  then show ?thesis by (simp add: slowRelayRootOf_def)
qed

lemma refundBefore_props:
  assumes cmp: "isComparator (compareAddresses U)"
  shows "refundBefore U a b \<Longrightarrow> \<not> refundBefore U b a"
    and "refundBefore U a b \<Longrightarrow> refundBefore U b c \<Longrightarrow> refundBefore U a c"
    and "compareRefundAddresses U a b = Inr n \<Longrightarrow> n \<le> 0 \<Longrightarrow> refundBefore U a b"
    and "compareRefundAddresses U a b = Inr n \<Longrightarrow> 0 < n \<Longrightarrow> refundBefore U b a"
    and "compareRefundAddresses U a b = Inl e
           \<Longrightarrow> e = Error ''Unexpected matching address'' \<and> \<not> refundBefore U a b \<and> \<not> refundBefore U b a"
proof -
  note cf = comparator_facts [OF cmp]
  have flip: "(compareAddresses U x y < 0) = (0 < compareAddresses U y x)" for x y
    using cmp unfolding isComparator_def by blast
  show "refundBefore U a b \<Longrightarrow> \<not> refundBefore U b a"
    using flip [of "fst a" "fst b"] unfolding refundBefore_def by auto
  show "refundBefore U a b \<Longrightarrow> refundBefore U b c \<Longrightarrow> refundBefore U a c"
    using cf(1) [of "fst a" "fst b" "fst c"] unfolding refundBefore_def by auto
  obtain fa ra fb rb where ab: "a = (fa, ra)" "b = (fb, rb)" by (cases a; cases b) auto
  note f5 = cf(5) [of fa fb] and f6 = cf(6) [of fa fb]
  show "compareRefundAddresses U a b = Inr n \<Longrightarrow> n \<le> 0 \<Longrightarrow> refundBefore U a b"
    unfolding ab by (auto simp: refundBefore_def Let_def split: if_splits)
  show "compareRefundAddresses U a b = Inr n \<Longrightarrow> 0 < n \<Longrightarrow> refundBefore U b a"
    unfolding ab using f5 by (auto simp: refundBefore_def Let_def split: if_splits)
  show "compareRefundAddresses U a b = Inl e
           \<Longrightarrow> e = Error ''Unexpected matching address'' \<and> \<not> refundBefore U a b \<and> \<not> refundBefore U b a"
    unfolding ab using f6 by (auto simp: refundBefore_def Let_def split: if_splits)
qed

lemma sortWith_compareRefundAddresses_permuted:
  assumes cmp: "isComparator (compareAddresses U)" and perm: "mset xs = mset ys"
  shows "sortWith (compareRefundAddresses U) xs = sortWith (compareRefundAddresses U) ys"
proof (rule sortWith_permuted [of "refundBefore U" "\<lambda>_. True" "compareRefundAddresses U"
      "Error ''Unexpected matching address''" xs ys])
  show "\<not> refundBefore U b a" if "refundBefore U a b" for a b
    using refundBefore_props(1) [OF cmp that] .
  show "refundBefore U a c" if "refundBefore U a b" "refundBefore U b c" for a b c
    using refundBefore_props(2) [OF cmp that] .
  show "refundBefore U a b" if "compareRefundAddresses U a b = Inr c" "c \<le> 0" for a b c
    using refundBefore_props(3) [OF cmp that] .
  show "refundBefore U b a" if "compareRefundAddresses U a b = Inr c" "0 < c" for a b c
    using refundBefore_props(4) [OF cmp that] .
  show "e = Error ''Unexpected matching address'' \<and> \<not> refundBefore U a b \<and> \<not> refundBefore U b a"
    if "compareRefundAddresses U a b = Inl e" for a b e
    using refundBefore_props(5) [OF cmp that] .
  show "list_all (\<lambda>_. True) xs" by (simp add: list_all_iff)
  show "mset xs = mset ys" by (rule perm)
qed

lemma refundLeavesForGroup_permuted:
  assumes cmp: "isComparator (compareAddresses U)" and perm: "mset (refunds g) = mset (refunds g')"
  shows "refundLeavesForGroup U dw endBlock balances chain acc (token, g)
           = refundLeavesForGroup U dw endBlock balances chain acc (token, g')"
  using sortWith_compareRefundAddresses_permuted [OF cmp perm]
  by (simp add: refundLeavesForGroup_def)

lemma refundLeafBefore_asym:
  assumes cmp: "isComparator (compareAddresses U)" and ab: "refundLeafBefore U a b"
  shows "\<not> refundLeafBefore U b a"
proof -
  have flip: "(compareAddresses U x y < 0) = (0 < compareAddresses U y x)" for x y
    using cmp unfolding isComparator_def by blast
  note f6 = comparator_facts(6) [OF cmp, of "l2TokenAddress a" "l2TokenAddress b"]
  show ?thesis
    using ab flip [of "l2TokenAddress a" "l2TokenAddress b"] f6
    unfolding refundLeafBefore_def
    by (cases "groupIndex a"; cases "groupIndex b") auto
qed

lemma compareRefundLeaves_tie:
  assumes cmp: "isComparator (compareAddresses U)"
    and c: "compareRefundLeaves U a b = Inl e"
  shows "e = Error ''Unexpected leaf group indices match''
           \<and> \<not> refundLeafBefore U a b \<and> \<not> refundLeafBefore U b a"
proof -
  note f6 = comparator_facts(6) [OF cmp, of "l2TokenAddress a" "l2TokenAddress b"]
  from c have eq: "chainId a = chainId b"
      "compareAddresses U (l2TokenAddress a) (l2TokenAddress b) = 0"
      "groupIndex a = groupIndex b" and e: "e = Error ''Unexpected leaf group indices match''"
    by (auto simp: compareRefundLeaves_def split: if_splits)
  from eq f6 have "\<not> refundLeafBefore U a b" "\<not> refundLeafBefore U b a"
    unfolding refundLeafBefore_def by (cases "groupIndex b"; simp)+
  with e show ?thesis by simp
qed

lemma sortWith_compareRefundLeaves_permuted:
  assumes cmp: "isComparator (compareAddresses U)"
    and grp: "list_all hasGroupIndex xs" and perm: "mset xs = mset ys"
  shows "sortWith (compareRefundLeaves U) xs = sortWith (compareRefundLeaves U) ys"
proof (rule sortWith_permuted [of "refundLeafBefore U" hasGroupIndex "compareRefundLeaves U"
      "Error ''Unexpected leaf group indices match''" xs ys])
  show "\<not> refundLeafBefore U b a" if "refundLeafBefore U a b" for a b
    using refundLeafBefore_asym [OF cmp that] .
  show "refundLeafBefore U a c" if "refundLeafBefore U a b" "refundLeafBefore U b c" for a b c
    using refundLeafBefore_trans [OF cmp that] .
  show "refundLeafBefore U a b"
    if "hasGroupIndex a" "hasGroupIndex b" "compareRefundLeaves U a b = Inr c" "c \<le> 0" for a b c
    using that
    by (auto simp: compareRefundLeaves_def refundLeafBefore_def hasGroupIndex_def
             split: if_splits)
  show "refundLeafBefore U b a"
    if "hasGroupIndex a" "hasGroupIndex b" "compareRefundLeaves U a b = Inr c" "0 < c" for a b c
    using that comparator_facts(5,6) [OF cmp, of "l2TokenAddress a" "l2TokenAddress b"]
    by (auto simp: compareRefundLeaves_def refundLeafBefore_def hasGroupIndex_def
             split: if_splits)
  show "e = Error ''Unexpected leaf group indices match''
          \<and> \<not> refundLeafBefore U a b \<and> \<not> refundLeafBefore U b a"
    if "compareRefundLeaves U a b = Inl e" for a b e
    using compareRefundLeaves_tie [OF cmp that] .
  show "list_all hasGroupIndex xs" by (rule grp)
  show "mset xs = mset ys" by (rule perm)
qed

lemma relayerRefundRootOf_permuted:
  assumes cmp: "isComparator (compareAddresses U)"
    and grp: "list_all hasGroupIndex xs" and perm: "mset xs = mset ys"
  shows "relayerRefundRootOf U xs = relayerRefundRootOf U ys"
  using sortWith_compareRefundLeaves_permuted [OF cmp grp perm]
  by (simp add: relayerRefundRootOf_def)

lemma repeatable_worldIndependent:
  assumes "worldIndependent m"
  shows "repeatable m"
  unfolding repeatable_def
proof (intro allI impI)
  fix w first w1 assume "m w = Inr (first, w1)"
  then have "map_sum id fst (m w) = Inr first" by simp
  from wi_result [OF assms this] show "\<exists>w2. m w1 = Inr (first, w2)" .
qed


section \<open>The leaves of the relayer refund root\<close>





text \<open>
  C5.  When \<^verbatim>\<open>buildRelayerRefundRoot\<close> returns, and address comparison is a
  consistent three-way comparison, the leaves of the root are the leaves that the
  method pushed, each with the group index it was pushed with, put in the order
  of chain id, then token address, then group index (strictly: no two agree on
  all three), after which each leaf has taken its position as leaf id, from 0 on,
  and has lost its group index; the order by chain id and token address shows in
  the final leaves.
\<close>

theorem refund_leaves_sorted_and_indexed:
  assumes "buildRelayerRefundRoot U dw blockRangesForChains spokePoolClients w = Inr (root, w')"
    and "isComparator (compareAddresses U)"
  shows "\<exists>relayerRefundLeaves sortedLeaves.
           buildRelayerRefundLeaves U dw blockRangesForChains spokePoolClients w
             = Inr (relayerRefundLeaves, w')
           \<and> mset sortedLeaves = mset relayerRefundLeaves
           \<and> sorted_wrt (refundLeafBefore U) sortedLeaves
           \<and> length (leaves root) = length sortedLeaves
           \<and> (\<forall>i < length sortedLeaves.
                 leaves root ! i = (sortedLeaves ! i)\<lparr>groupIndex := None, leafId := int i\<rparr>)
           \<and> sorted_wrt (finalLeafBefore U) (leaves root)
           \<and> map leafId (leaves root) = map int [0 ..< length (leaves root)]
           \<and> (\<forall>leaf \<in> set (leaves root). groupIndex leaf = None)"
proof -
  from buildRelayerRefundRoot_parts [OF assms(1)] obtain ls sortedLs where
    built: "buildRelayerRefundLeaves U dw blockRangesForChains spokePoolClients w = Inr (ls, w')"
    and grp: "list_all hasGroupIndex ls"
    and sort: "sortWith (compareRefundLeaves U) ls = Inr sortedLs"
    and root: "leaves root = indexLeaves sortedLs"
    by blast
  from sortWith_compareRefundLeaves [OF assms(2) grp sort]
  have s: "sorted_wrt (refundLeafBefore U) sortedLs" by simp
  have m: "mset sortedLs = mset ls" using sortWith_mset [OF sort] .
  have nth: "\<forall>i < length sortedLs.
               leaves root ! i = (sortedLs ! i)\<lparr>groupIndex := None, leafId := int i\<rparr>"
    using root by (simp add: indexLeaves_nth)
  show ?thesis
    using built m s nth root indexLeaves_sorted [OF s] indexLeaves_leafIds [of sortedLs]
      indexLeaves_no_groupIndex [of sortedLs]
    by (intro exI [of _ ls] exI [of _ sortedLs]) (simp add: indexLeaves_length)
qed

theorem refund_leaves_sorted_and_indexed_witness:
  "isComparator (compareAddresses exUtils) \<and>
   (\<exists>w' relayerRefundLeaves sortedLeaves.
      buildRelayerRefundRoot exUtils exDw [(100, 200), (500, 600)] exSpokePoolClients exWorld
        = Inr (\<lparr>leaves =
                  [\<lparr>groupIndex = None, amountToReturn = 1000, chainId = 1, refundAmounts = [],
                    leafId = 0, l2TokenAddress = ''0xa1'', refundAddresses = []\<rparr>,
                   \<lparr>groupIndex = None, amountToReturn = 0, chainId = 10,
                    refundAmounts = [360, 270], leafId = 1, l2TokenAddress = ''0xb1'',
                    refundAddresses = [''0x0c'', ''0x0a'']\<rparr>,
                   \<lparr>groupIndex = None, amountToReturn = 0, chainId = 10, refundAmounts = [90],
                    leafId = 2, l2TokenAddress = ''0xb1'', refundAddresses = [''0x0b'']\<rparr>],
                tree = ''0x521010001010360270102090''\<rparr>, w') \<and>
      buildRelayerRefundLeaves exUtils exDw [(100, 200), (500, 600)] exSpokePoolClients exWorld
        = Inr (relayerRefundLeaves, w') \<and>
      mset sortedLeaves = mset relayerRefundLeaves \<and>
      sorted_wrt (refundLeafBefore exUtils) sortedLeaves \<and>
      length sortedLeaves = 3 \<and>
      (sortedLeaves ! 0)\<lparr>groupIndex := None, leafId := 0\<rparr>
        = \<lparr>groupIndex = None, amountToReturn = 1000, chainId = 1, refundAmounts = [],
           leafId = 0, l2TokenAddress = ''0xa1'', refundAddresses = []\<rparr>)"
proof -
  let ?root = "\<lparr>leaves =
                     [\<lparr>groupIndex = None, amountToReturn = 1000, chainId = 1, refundAmounts = [],
                       leafId = 0, l2TokenAddress = ''0xa1'', refundAddresses = []\<rparr>,
                      \<lparr>groupIndex = None, amountToReturn = 0, chainId = 10,
                       refundAmounts = [360, 270], leafId = 1, l2TokenAddress = ''0xb1'',
                       refundAddresses = [''0x0c'', ''0x0a'']\<rparr>,
                      \<lparr>groupIndex = None, amountToReturn = 0, chainId = 10, refundAmounts = [90],
                       leafId = 2, l2TokenAddress = ''0xb1'', refundAddresses = [''0x0b'']\<rparr>],
                   tree = ''0x521010001010360270102090''\<rparr>"
  have "map_sum id fst
          (buildRelayerRefundRoot exUtils exDw [(100, 200), (500, 600)] exSpokePoolClients exWorld)
        = Inr ?root"
    unfolding exDw_def by (rule ex_buildRefund)
  then obtain w' where run:
    "buildRelayerRefundRoot exUtils exDw [(100, 200), (500, 600)] exSpokePoolClients exWorld
       = Inr (?root, w')"
    by (cases "buildRelayerRefundRoot exUtils exDw [(100, 200), (500, 600)] exSpokePoolClients
                 exWorld") auto
  from refund_leaves_sorted_and_indexed [OF run isComparator_exCompareAddresses]
  obtain relayerRefundLeaves sortedLeaves where
    built: "buildRelayerRefundLeaves exUtils exDw [(100, 200), (500, 600)] exSpokePoolClients exWorld
              = Inr (relayerRefundLeaves, w')"
    and perm: "mset sortedLeaves = mset relayerRefundLeaves"
    and sorted: "sorted_wrt (refundLeafBefore exUtils) sortedLeaves"
    and len: "length (leaves ?root) = length sortedLeaves"
    and nth: "\<forall>i < length sortedLeaves.
                leaves ?root ! i = (sortedLeaves ! i)\<lparr>groupIndex := None, leafId := int i\<rparr>"
    by blast
  from len have l3: "length sortedLeaves = 3" by simp
  then have "0 < length sortedLeaves" by simp
  from nth [rule_format, OF this]
  have "leaves ?root ! 0 = (sortedLeaves ! 0)\<lparr>groupIndex := None, leafId := int 0\<rparr>" .
  then have first: "(sortedLeaves ! 0)\<lparr>groupIndex := None, leafId := 0\<rparr>
        = \<lparr>groupIndex = None, amountToReturn = 1000, chainId = 1, refundAmounts = [],
           leafId = 0, l2TokenAddress = ''0xa1'', refundAddresses = []\<rparr>"
    by simp
  from run built perm sorted l3 first isComparator_exCompareAddresses show ?thesis by blast
qed
section \<open>The leaves of the slow relay root\<close>

text \<open>
  C6.  The slow relay sort orders the leaves by origin chain id, then by deposit
  id; the claim has the comparator raise an error when it is given two leaves
  that agree on both, as the comparators of the two sorts of the relayer refund
  root do.  The comparator of the slow relay sort does not: given two different
  leaves of origin chain 1 and deposit 7 it returns zero, and the root is built
  from both, in the order in which the unfilled deposits were given.
\<close>

theorem slow_relay_tie_not_raised:
  "originChainId (exSlowLeaf 1 7 1000) = originChainId (exSlowLeaf 1 7 250) \<and>
   depositId (exSlowLeaf 1 7 1000) = depositId (exSlowLeaf 1 7 250) \<and>
   exSlowLeaf 1 7 1000 \<noteq> exSlowLeaf 1 7 250 \<and>
   compareSlowRelays (exSlowLeaf 1 7 1000) (exSlowLeaf 1 7 250) = Inr 0 \<and>
   slowRelayRootOf exUtils [exUnfilledDeposit 1 7 1000, exUnfilledDeposit 1 7 250]
     = Inr \<lparr>leaves = [exSlowLeaf 1 7 1000, exSlowLeaf 1 7 250], tree = ''0x5117100017250''\<rparr> \<and>
   slowRelayRootOf exUtils [exUnfilledDeposit 1 7 250, exUnfilledDeposit 1 7 1000]
     = Inr \<lparr>leaves = [exSlowLeaf 1 7 250, exSlowLeaf 1 7 1000], tree = ''0x5117250171000''\<rparr>"
  by (simp add: slowRelayRootOf_def exUnfilledDeposit_def exSlowLeaf_def compareSlowRelays_def
      exUtils_def exDigest_def natToString.simps)

section \<open>The fills that \_loadData iterates\<close>


section \<open>Determinism of the root builders\<close>

text \<open>
  C1.  For a fixed snapshot (the imported functions, the Dataworker with its
  clients and configuration, the block ranges and the SpokePool clients), each of
  the three root builders called a second time, in the world that its first call
  left, returns the leaves and the Merkle root that the first call returned; and
  what a builder returns or throws does not depend on the log and the transaction
  queue it is called from.  Nor does the order in which the data were collected
  show in the roots: the slow relay root is the same for the same unfilled
  deposits in another order, as long as no two of them agree on origin chain and
  deposit id; the leaves of a refund group are the same for the same refunds in
  another key order; and the relayer refund root is the same for the same leaves
  pushed in another order.  The last two hold where address comparison is a
  consistent three-way comparison.
\<close>

theorem root_builders_deterministic:
  "repeatable (buildSlowRelayRoot U dw blockRangesForChains spokePoolClients) \<and>
   repeatable (buildRelayerRefundRoot U dw blockRangesForChains spokePoolClients) \<and>
   repeatable (buildPoolRebalanceRoot U dw blockRangesForChains spokePoolClients) \<and>
   worldIndependent (buildSlowRelayRoot U dw blockRangesForChains spokePoolClients) \<and>
   worldIndependent (buildRelayerRefundRoot U dw blockRangesForChains spokePoolClients) \<and>
   worldIndependent (buildPoolRebalanceRoot U dw blockRangesForChains spokePoolClients) \<and>
   (mset unfilledDeposits = mset unfilledDeposits'
      \<and> distinct (map unfilledDepositKey unfilledDeposits)
      \<longrightarrow> slowRelayRootOf U unfilledDeposits = slowRelayRootOf U unfilledDeposits') \<and>
   (isComparator (compareAddresses U) \<and> mset (refunds g) = mset (refunds g')
      \<longrightarrow> refundLeavesForGroup U dw endBlockForMainnet balances repaymentChain pushed (l2Token, g)
            = refundLeavesForGroup U dw endBlockForMainnet balances repaymentChain pushed (l2Token, g')) \<and>
   (isComparator (compareAddresses U) \<and> list_all hasGroupIndex relayerRefundLeaves
      \<and> mset relayerRefundLeaves = mset relayerRefundLeaves'
      \<longrightarrow> relayerRefundRootOf U relayerRefundLeaves = relayerRefundRootOf U relayerRefundLeaves')"
proof (intro conjI impI)
  show "repeatable (buildSlowRelayRoot U dw blockRangesForChains spokePoolClients)"
    by (rule repeatable_worldIndependent [OF wi_buildSlowRelayRoot])
  show "repeatable (buildRelayerRefundRoot U dw blockRangesForChains spokePoolClients)"
    by (rule repeatable_worldIndependent [OF wi_buildRelayerRefundRoot])
  show "repeatable (buildPoolRebalanceRoot U dw blockRangesForChains spokePoolClients)"
    by (rule repeatable_worldIndependent [OF wi_buildPoolRebalanceRoot])
  show "worldIndependent (buildSlowRelayRoot U dw blockRangesForChains spokePoolClients)"
    by (rule wi_buildSlowRelayRoot)
  show "worldIndependent (buildRelayerRefundRoot U dw blockRangesForChains spokePoolClients)"
    by (rule wi_buildRelayerRefundRoot)
  show "worldIndependent (buildPoolRebalanceRoot U dw blockRangesForChains spokePoolClients)"
    by (rule wi_buildPoolRebalanceRoot)
  show "slowRelayRootOf U unfilledDeposits = slowRelayRootOf U unfilledDeposits'"
    if "mset unfilledDeposits = mset unfilledDeposits'
          \<and> distinct (map unfilledDepositKey unfilledDeposits)"
    using that slowRelayRootOf_permuted by blast
  show "refundLeavesForGroup U dw endBlockForMainnet balances repaymentChain pushed (l2Token, g)
          = refundLeavesForGroup U dw endBlockForMainnet balances repaymentChain pushed (l2Token, g')"
    if "isComparator (compareAddresses U) \<and> mset (refunds g) = mset (refunds g')"
    using that refundLeavesForGroup_permuted by blast
  show "relayerRefundRootOf U relayerRefundLeaves = relayerRefundRootOf U relayerRefundLeaves'"
    if "isComparator (compareAddresses U) \<and> list_all hasGroupIndex relayerRefundLeaves
          \<and> mset relayerRefundLeaves = mset relayerRefundLeaves'"
    using that relayerRefundRootOf_permuted by blast
qed


theorem root_builders_deterministic_witness:
  "(\<exists>w1 w2.
      buildSlowRelayRoot exUtils exDw [(100, 200), (500, 600)] exSpokePoolClients exWorld
        = Inr (\<lparr>leaves = [exSlowLeaf 1 7 1000], tree = ''0x51171000''\<rparr>, w1) \<and>
      buildSlowRelayRoot exUtils exDw [(100, 200), (500, 600)] exSpokePoolClients w1
        = Inr (\<lparr>leaves = [exSlowLeaf 1 7 1000], tree = ''0x51171000''\<rparr>, w2)) \<and>
   slowRelayRootOf exUtils [exUnfilledDeposit 10 3 5, exUnfilledDeposit 1 7 5]
     = slowRelayRootOf exUtils [exUnfilledDeposit 1 7 5, exUnfilledDeposit 10 3 5] \<and>
   slowRelayRootOf exUtils [exUnfilledDeposit 10 3 5, exUnfilledDeposit 1 7 5]
     = Inr \<lparr>leaves = [exSlowLeaf 1 7 5, exSlowLeaf 10 3 5], tree = ''0x511751035''\<rparr> \<and>
   refundLeavesForGroup exUtils exDw 200 [(10, [(''0xa1'', - 720)])] 10 []
       (''0xb1'', exEmptyGroup\<lparr>refunds := [(''0x0a'', 270), (''0x0c'', 360), (''0x0b'', 90)]\<rparr>)
     = refundLeavesForGroup exUtils exDw 200 [(10, [(''0xa1'', - 720)])] 10 []
         (''0xb1'', exEmptyGroup\<lparr>refunds := [(''0x0b'', 90), (''0x0a'', 270), (''0x0c'', 360)]\<rparr>) \<and>
   relayerRefundRootOf exUtils
       [exRefundLeaf 10 ''0xb1'' 2, exRefundLeaf 1 ''0xa1'' 0, exRefundLeaf 10 ''0xb1'' 0]
     = relayerRefundRootOf exUtils
         [exRefundLeaf 10 ''0xb1'' 0, exRefundLeaf 10 ''0xb1'' 2, exRefundLeaf 1 ''0xa1'' 0]"
proof -
  let ?root = "\<lparr>leaves = [exSlowLeaf 1 7 1000], tree = ''0x51171000''\<rparr>"
  let ?g = "exEmptyGroup\<lparr>refunds := [(''0x0a'', 270), (''0x0c'', 360), (''0x0b'', 90)]\<rparr>"
  let ?g' = "exEmptyGroup\<lparr>refunds := [(''0x0b'', 90), (''0x0a'', 270), (''0x0c'', 360)]\<rparr>"
  let ?ls = "[exRefundLeaf 10 ''0xb1'' 2, exRefundLeaf 1 ''0xa1'' 0, exRefundLeaf 10 ''0xb1'' 0]"
  let ?ls' = "[exRefundLeaf 10 ''0xb1'' 0, exRefundLeaf 10 ''0xb1'' 2, exRefundLeaf 1 ''0xa1'' 0]"
  note inst = root_builders_deterministic
    [of exUtils exDw "[(100, 200), (500, 600)]" exSpokePoolClients
        "[exUnfilledDeposit 10 3 5, exUnfilledDeposit 1 7 5]"
        "[exUnfilledDeposit 1 7 5, exUnfilledDeposit 10 3 5]"
        ?g ?g' 200 "[(10, [(''0xa1'', - 720)])]" 10 "[]" "''0xb1''" ?ls ?ls']
  have "map_sum id fst
          (buildSlowRelayRoot exUtils exDw [(100, 200), (500, 600)] exSpokePoolClients exWorld)
        = Inr ?root"
    unfolding exDw_def exSlowLeaf_def using ex_buildSlow by simp
  then obtain w1 where run:
    "buildSlowRelayRoot exUtils exDw [(100, 200), (500, 600)] exSpokePoolClients exWorld
       = Inr (?root, w1)"
    by (cases "buildSlowRelayRoot exUtils exDw [(100, 200), (500, 600)] exSpokePoolClients
                 exWorld") auto
  from inst [THEN conjunct1, unfolded repeatable_def, rule_format, OF run]
  obtain w2 where again:
    "buildSlowRelayRoot exUtils exDw [(100, 200), (500, 600)] exSpokePoolClients w1
       = Inr (?root, w2)"
    by blast
  have p1: "mset [exUnfilledDeposit 10 3 5, exUnfilledDeposit 1 7 5]
              = mset [exUnfilledDeposit 1 7 5, exUnfilledDeposit 10 3 5]
            \<and> distinct (map unfilledDepositKey [exUnfilledDeposit 10 3 5, exUnfilledDeposit 1 7 5])"
    by (simp add: add_mset_commute unfilledDepositKey_def exUnfilledDeposit_def)
  from inst [THEN conjunct2, THEN conjunct2, THEN conjunct2, THEN conjunct2, THEN conjunct2,
      THEN conjunct2, THEN conjunct1, THEN mp, OF p1]
  have slow: "slowRelayRootOf exUtils [exUnfilledDeposit 10 3 5, exUnfilledDeposit 1 7 5]
                = slowRelayRootOf exUtils [exUnfilledDeposit 1 7 5, exUnfilledDeposit 10 3 5]" .
  have slowval: "slowRelayRootOf exUtils [exUnfilledDeposit 10 3 5, exUnfilledDeposit 1 7 5]
     = Inr \<lparr>leaves = [exSlowLeaf 1 7 5, exSlowLeaf 10 3 5], tree = ''0x511751035''\<rparr>"
    by (simp add: slowRelayRootOf_def exUnfilledDeposit_def exSlowLeaf_def compareSlowRelays_def
        exUtils_def exDigest_def natToString.simps)
  have p2: "isComparator (compareAddresses exUtils) \<and> mset (refunds ?g) = mset (refunds ?g')"
    using isComparator_exCompareAddresses by (simp add: add_mset_commute)
  from inst [THEN conjunct2, THEN conjunct2, THEN conjunct2, THEN conjunct2, THEN conjunct2,
      THEN conjunct2, THEN conjunct2, THEN conjunct1, THEN mp, OF p2]
  have grp: "refundLeavesForGroup exUtils exDw 200 [(10, [(''0xa1'', - 720)])] 10 [] (''0xb1'', ?g)
               = refundLeavesForGroup exUtils exDw 200 [(10, [(''0xa1'', - 720)])] 10 []
                   (''0xb1'', ?g')" .
  have p3: "isComparator (compareAddresses exUtils) \<and> list_all hasGroupIndex ?ls
              \<and> mset ?ls = mset ?ls'"
    using isComparator_exCompareAddresses
    by (simp add: add_mset_commute hasGroupIndex_def exRefundLeaf_def)
  from inst [THEN conjunct2, THEN conjunct2, THEN conjunct2, THEN conjunct2, THEN conjunct2,
      THEN conjunct2, THEN conjunct2, THEN conjunct2, THEN mp, OF p3]
  have ref: "relayerRefundRootOf exUtils ?ls = relayerRefundRootOf exUtils ?ls'" .
  from run again slow slowval grp ref show ?thesis by blast
qed

section \<open>The outcomes of validateRootBundle\<close>

text \<open>
  C9.  When the current time of the HubPool client equals the end of the challenge
  period of the pending proposal, \<^verbatim>\<open>validateRootBundle\<close> does not leave through
  the exit for an expired challenge period: after logging that it found the
  proposal it disputes an empty pool rebalance root, and otherwise goes on to
  check the pending end blocks.
\<close>

theorem validate_at_challenge_period_end:
  assumes "HubPoolClient.isUpdated (hubPoolClient (clients dw))"
    and "getNetworkChainId (hubPoolClient (clients dw)) = Inr cid"
    and "hasPendingProposal (hubPoolClient (clients dw))"
    and "currentTime (hubPoolClient (clients dw))
           = challengePeriodEndTimestamp (getPendingRootBundleProposal (hubPoolClient (clients dw)))"
  shows "(poolRebalanceRoot (getPendingRootBundleProposal (hubPoolClient (clients dw)))
            = EMPTY_MERKLE_ROOT U \<longrightarrow>
          validateRootBundle U dw w =
            Inr ((), w\<lparr>logs := logs w @
                       [(Debug, ''Dataworker#validate'', ''Found pending proposal''),
                        (Debug, ''Dataworker#validate'',
                         ''Empty pool rebalance root, submitting dispute'')],
                     transactions := transactions w @
                       [disputeTransaction cid
                          ''Disputed pending root bundle with empty pool rebalance root'']\<rparr>)) \<and>
         (poolRebalanceRoot (getPendingRootBundleProposal (hubPoolClient (clients dw)))
            \<noteq> EMPTY_MERKLE_ROOT U \<longrightarrow>
          validateRootBundle U dw w =
            validateBundleBlocks U dw cid (getPendingRootBundleProposal (hubPoolClient (clients dw)))
              (w\<lparr>logs := logs w @
                   [(Debug, ''Dataworker#validate'', ''Found pending proposal'')]\<rparr>))"
  using assms validateRootBundle_to_blocks [of dw cid U w]
  by (simp add: M_apply)

theorem validate_at_challenge_period_end_witness:
  "currentTime (hubPoolClient (clients
      (exDataworker (exPending [200, 600] 2 (EMPTY_MERKLE_ROOT exUtils) ''0x52'' ''0x51'') 7200 [])))
     = challengePeriodEndTimestamp (exPending [200, 600] 2 (EMPTY_MERKLE_ROOT exUtils) ''0x52'' ''0x51'') \<and>
   validateRootBundle exUtils
     (exDataworker (exPending [200, 600] 2 (EMPTY_MERKLE_ROOT exUtils) ''0x52'' ''0x51'') 7200 [])
     exWorld =
     Inr ((), \<lparr>logs = [(Debug, ''Dataworker#validate'', ''Found pending proposal''),
                        (Debug, ''Dataworker#validate'',
                         ''Empty pool rebalance root, submitting dispute'')],
               transactions =
                 [disputeTransaction 1
                    ''Disputed pending root bundle with empty pool rebalance root'']\<rparr>) \<and>
   validateRootBundle exUtils
     (exDataworker (exPending [200, 600] 2 ''0x50'' ''0x52'' ''0x51'') 7200 []) exWorld =
     validateBundleBlocks exUtils
       (exDataworker (exPending [200, 600] 2 ''0x50'' ''0x52'' ''0x51'') 7200 []) 1
       (exPending [200, 600] 2 ''0x50'' ''0x52'' ''0x51'')
       \<lparr>logs = [(Debug, ''Dataworker#validate'', ''Found pending proposal'')], transactions = []\<rparr>"
  using validate_at_challenge_period_end
          [of "exDataworker (exPending [200, 600] 2 (EMPTY_MERKLE_ROOT exUtils) ''0x52'' ''0x51'') 7200 []"
              1 exUtils exWorld]
        validate_at_challenge_period_end
          [of "exDataworker (exPending [200, 600] 2 ''0x50'' ''0x52'' ''0x51'') 7200 []"
              1 exUtils exWorld]
  by (simp add: exDataworker_def exHubPoolClient_def exPending_def exWorld_def)
     (simp add: exUtils_def)

text \<open>
  C2.  For a pending proposal that passes the earlier checks: if some end block
  exceeds the latest block of its chain by more than the chain's buffer, the
  buffer being non-negative, a dispute is enqueued; if every end block is within
  the buffer of its chain and some end block exceeds the latest block,
  \<^verbatim>\<open>validateRootBundle\<close> returns having logged that it skips, with no
  transaction enqueued and no root rebuilt.
\<close>

theorem validate_end_blocks_against_buffer:
  assumes "passesEarlierChecks U dw cid W"
    and "pending = getPendingRootBundleProposal (hubPoolClient (clients dw))"
  shows "((\<exists>i < length W. 0 \<le> endBlockBuffersOf dw ! i
             \<and> bundleEvaluationBlockNumbers pending ! i > snd (W ! i) + endBlockBuffersOf dw ! i)
          \<longrightarrow> validateRootBundle U dw w =
                Inr ((), w\<lparr>logs := logs w @
                           [(Debug, ''Dataworker#validate'', ''Found pending proposal''),
                            (Debug, ''Dataworker#validate'',
                             ''A bundle end block is > latest block + buffer for its chain, submitting dispute'')],
                         transactions := transactions w @
                           [disputeTransaction cid
                              (generateMarkdownForDisputeInvalidBundleBlocks U dw pending W
                                 (endBlockBuffersOf dw))]\<rparr>)) \<and>
         ((\<forall>i < length W. bundleEvaluationBlockNumbers pending ! i
                               \<le> snd (W ! i) + endBlockBuffersOf dw ! i)
          \<and> (\<exists>i < length W. bundleEvaluationBlockNumbers pending ! i > snd (W ! i))
          \<longrightarrow> validateRootBundle U dw w =
                Inr ((), w\<lparr>logs := logs w @
                           [(Debug, ''Dataworker#validate'', ''Found pending proposal''),
                            (Debug, ''Dataworker#validate'',
                             ''A bundle end block is > latest block but within buffer, skipping'')]\<rparr>))"
proof -
  let ?w1 = "w\<lparr>logs := logs w @ [(Debug, ''Dataworker#validate'', ''Found pending proposal'')]\<rparr>"
  have step: "validateRootBundle U dw w = validateBundleBlocks U dw cid pending ?w1"
    using validateRootBundle_after_checks [OF assms(1)] assms(2) by simp
  have W: "getWidestPossibleExpectedBlockRange dw = Inr W"
    and len: "length (bundleEvaluationBlockNumbers pending) = length W"
    and start: "\<forall>i < length W. fst (W ! i) \<le> bundleEvaluationBlockNumbers pending ! i"
    using assms by (simp_all add: passesEarlierChecks_def)
  note blocks = validateBundleBlocks_in_range [OF W len start, of U cid ?w1]
  show ?thesis
  proof (intro conjI impI)
    assume "\<exists>i < length W. 0 \<le> endBlockBuffersOf dw ! i
              \<and> bundleEvaluationBlockNumbers pending ! i > snd (W ! i) + endBlockBuffersOf dw ! i"
    then obtain i where i: "i < length W" "0 \<le> endBlockBuffersOf dw ! i"
      "bundleEvaluationBlockNumbers pending ! i > snd (W ! i) + endBlockBuffersOf dw ! i"
      by blast
    then have "bundleEvaluationBlockNumbers pending ! i > snd (W ! i)" by linarith
    with i have c1: "(\<exists>i < length W. bundleEvaluationBlockNumbers pending ! i > snd (W ! i)) = True"
      and c2: "(\<exists>i < length W. bundleEvaluationBlockNumbers pending ! i
                                   > snd (W ! i) + endBlockBuffersOf dw ! i) = True"
      by blast+
    show "validateRootBundle U dw w =
            Inr ((), w\<lparr>logs := logs w @
                       [(Debug, ''Dataworker#validate'', ''Found pending proposal''),
                        (Debug, ''Dataworker#validate'',
                         ''A bundle end block is > latest block + buffer for its chain, submitting dispute'')],
                     transactions := transactions w @
                       [disputeTransaction cid
                          (generateMarkdownForDisputeInvalidBundleBlocks U dw pending W
                             (endBlockBuffersOf dw))]\<rparr>)"
      unfolding step blocks c1 c2 by simp
  next
    assume a: "(\<forall>i < length W. bundleEvaluationBlockNumbers pending ! i
                                   \<le> snd (W ! i) + endBlockBuffersOf dw ! i)
               \<and> (\<exists>i < length W. bundleEvaluationBlockNumbers pending ! i > snd (W ! i))"
    then have c1: "(\<exists>i < length W. bundleEvaluationBlockNumbers pending ! i > snd (W ! i)) = True"
      by blast
    from a have c2: "(\<exists>i < length W. bundleEvaluationBlockNumbers pending ! i
                                   > snd (W ! i) + endBlockBuffersOf dw ! i) = False"
      by (auto simp: not_less)
    show "validateRootBundle U dw w =
            Inr ((), w\<lparr>logs := logs w @
                       [(Debug, ''Dataworker#validate'', ''Found pending proposal''),
                        (Debug, ''Dataworker#validate'',
                         ''A bundle end block is > latest block but within buffer, skipping'')]\<rparr>)"
      unfolding step blocks c1 c2 by simp
  qed
qed

theorem validate_end_blocks_against_buffer_witness:
  "passesEarlierChecks exUtils
     (exDataworker (exPending [209, 600] 2 ''0x50'' ''0x52'' ''0x51'') 0 [(1, 5)]) 1
     [(100, 200), (500, 600)] \<and>
   validateRootBundle exUtils
     (exDataworker (exPending [209, 600] 2 ''0x50'' ''0x52'' ''0x51'') 0 [(1, 5)]) exWorld =
     Inr ((), \<lparr>logs = [(Debug, ''Dataworker#validate'', ''Found pending proposal''),
                        (Debug, ''Dataworker#validate'',
                         ''A bundle end block is > latest block + buffer for its chain, submitting dispute'')],
               transactions =
                 [disputeTransaction 1
                    (generateMarkdownForDisputeInvalidBundleBlocks exUtils
                       (exDataworker (exPending [209, 600] 2 ''0x50'' ''0x52'' ''0x51'') 0 [(1, 5)])
                       (exPending [209, 600] 2 ''0x50'' ''0x52'' ''0x51'')
                       [(100, 200), (500, 600)] [5, 0])]\<rparr>) \<and>
   passesEarlierChecks exUtils
     (exDataworker (exPending [203, 600] 2 ''0x50'' ''0x52'' ''0x51'') 0 [(1, 5)]) 1
     [(100, 200), (500, 600)] \<and>
   validateRootBundle exUtils
     (exDataworker (exPending [203, 600] 2 ''0x50'' ''0x52'' ''0x51'') 0 [(1, 5)]) exWorld =
     Inr ((), \<lparr>logs = [(Debug, ''Dataworker#validate'', ''Found pending proposal''),
                        (Debug, ''Dataworker#validate'',
                         ''A bundle end block is > latest block but within buffer, skipping'')],
               transactions = []\<rparr>)"
proof -
  let ?pA = "exPending [209, 600] 2 ''0x50'' ''0x52'' ''0x51''"
  let ?pB = "exPending [203, 600] 2 ''0x50'' ''0x52'' ''0x51''"
  have buffers: "endBlockBuffersOf (exDataworker p t [(1, 5)]) = [5, 0]" for p t
    by (simp add: endBlockBuffersOf_def exDataworker_def)
  have checksA: "passesEarlierChecks exUtils (exDataworker ?pA 0 [(1, 5)]) 1 [(100, 200), (500, 600)]"
    by (rule ex_checks) (simp_all add: exUtils_def)
  have checksB: "passesEarlierChecks exUtils (exDataworker ?pB 0 [(1, 5)]) 1 [(100, 200), (500, 600)]"
    by (rule ex_checks) (simp_all add: exUtils_def)
  have overA: "\<exists>i < length [(100 :: int, 200 :: int), (500, 600)].
      0 \<le> endBlockBuffersOf (exDataworker ?pA 0 [(1, 5)]) ! i \<and>
      bundleEvaluationBlockNumbers ?pA ! i
        > snd ([(100, 200), (500, 600)] ! i) + endBlockBuffersOf (exDataworker ?pA 0 [(1, 5)]) ! i"
    by (intro exI [of _ 0]) (simp add: buffers exPending_def)
  have withinB: "(\<forall>i < length [(100 :: int, 200 :: int), (500, 600)].
      bundleEvaluationBlockNumbers ?pB ! i
        \<le> snd ([(100, 200), (500, 600)] ! i) + endBlockBuffersOf (exDataworker ?pB 0 [(1, 5)]) ! i)
      \<and> (\<exists>i < length [(100 :: int, 200 :: int), (500, 600)].
            bundleEvaluationBlockNumbers ?pB ! i > snd ([(100, 200), (500, 600)] ! i))"
  proof
    show "\<forall>i < length [(100 :: int, 200 :: int), (500, 600)].
      bundleEvaluationBlockNumbers ?pB ! i
        \<le> snd ([(100, 200), (500, 600)] ! i) + endBlockBuffersOf (exDataworker ?pB 0 [(1, 5)]) ! i"
      by (simp add: buffers exPending_def All_less_Suc numeral_2_eq_2)
    show "\<exists>i < length [(100 :: int, 200 :: int), (500, 600)].
            bundleEvaluationBlockNumbers ?pB ! i > snd ([(100, 200), (500, 600)] ! i)"
      by (intro exI [of _ 0]) (simp add: exPending_def)
  qed
  from validate_end_blocks_against_buffer
         [OF checksA ex_pending [symmetric], of exWorld, THEN conjunct1, THEN mp, OF overA]
  have A: "validateRootBundle exUtils (exDataworker ?pA 0 [(1, 5)]) exWorld =
     Inr ((), \<lparr>logs = [(Debug, ''Dataworker#validate'', ''Found pending proposal''),
                        (Debug, ''Dataworker#validate'',
                         ''A bundle end block is > latest block + buffer for its chain, submitting dispute'')],
               transactions =
                 [disputeTransaction 1
                    (generateMarkdownForDisputeInvalidBundleBlocks exUtils (exDataworker ?pA 0 [(1, 5)]) ?pA
                       [(100, 200), (500, 600)] [5, 0])]\<rparr>)"
    by (simp add: buffers exWorld_def)
  from validate_end_blocks_against_buffer
         [OF checksB ex_pending [symmetric], of exWorld, THEN conjunct2, THEN mp, OF withinB]
  have B: "validateRootBundle exUtils (exDataworker ?pB 0 [(1, 5)]) exWorld =
     Inr ((), \<lparr>logs = [(Debug, ''Dataworker#validate'', ''Found pending proposal''),
                        (Debug, ''Dataworker#validate'',
                         ''A bundle end block is > latest block but within buffer, skipping'')],
               transactions = []\<rparr>)"
    by (simp add: exWorld_def)
  from checksA A checksB B show ?thesis by simp
qed

text \<open>
  C3, as amended.  For a pending proposal that reaches the rebuilding of the
  roots, \<^verbatim>\<open>validateRootBundle\<close> enqueues a dispute if and only if the number
  of rebuilt pool rebalance leaves differs from the pending leaf count or one of
  the three rebuilt roots differs from the pending one; if the count and the
  three roots agree it enqueues nothing.  The roots are those built over the
  block ranges implied by the pending end blocks, and the dispute's markdown is
  assumed to be produced.
\<close>

theorem validate_disputes_iff_count_or_root_differs:
  assumes "passesEarlierChecks U dw cid W"
    and "pending = getPendingRootBundleProposal (hubPoolClient (clients dw))"
    and "\<forall>i < length W. bundleEvaluationBlockNumbers pending ! i \<le> snd (W ! i)"
    and "getBlockRangeForChain (impliedBlockRanges pending W) 1
           (chainIdListForBundleEvaluationBlockNumbers dw) = Inr r"
    and "constructSpokePoolClientsForBlockAndUpdate dw (snd r) = Inr sc"
    and "map_sum id fst (buildPoolRebalanceRoot U dw (impliedBlockRanges pending W) sc w0) = Inr pool"
    and "map_sum id fst (buildRelayerRefundRoot U dw (impliedBlockRanges pending W) sc w0) = Inr refund"
    and "map_sum id fst (buildSlowRelayRoot U dw (impliedBlockRanges pending W) sc w0) = Inr slow"
    and "generateMarkdownForRootBundle U cid (impliedBlockRanges pending W)
           (leaves pool) (tree pool) (leaves refund) (tree refund) (leaves slow) (tree slow)
           = Inr md"
  shows "\<exists>w'. validateRootBundle U dw w = Inr ((), w') \<and>
              transactions w' =
                (if int (length (leaves pool)) \<noteq> unclaimedPoolRebalanceLeafCount pending
                    \<or> tree pool \<noteq> poolRebalanceRoot pending
                    \<or> tree refund \<noteq> relayerRefundRoot pending
                    \<or> tree slow \<noteq> slowRelayRoot pending
                 then transactions w @
                        [disputeTransaction cid (generateMarkdownForDispute U pending @ NL @ md)]
                 else transactions w)"
  using validateRootBundle_rebuild_outcome [OF assms] .

theorem validate_disputes_iff_count_or_root_differs_witness:
  "passesEarlierChecks exUtils
     (exDataworker (exPending [200, 600] 2 ''0x50101000101720'' ''0x521010001010360270102090''
                      ''0x51171000'') 0 [])
     1 [(100, 200), (500, 600)] \<and>
   (\<exists>w'. validateRootBundle exUtils
            (exDataworker (exPending [200, 600] 2 ''0x50101000101720''
                             ''0x521010001010360270102090'' ''0x51171000'') 0 [])
            exWorld = Inr ((), w') \<and>
         transactions w' = [])"
proof -
  let ?p = "exPending [200, 600] 2 ''0x50101000101720'' ''0x521010001010360270102090'' ''0x51171000''"
  let ?dw = "exDataworker ?p 0 []"
  have checks: "passesEarlierChecks exUtils ?dw 1 [(100, 200), (500, 600)]"
    by (rule ex_checks) (simp_all add: exUtils_def)
  have ends: "\<forall>i < length [(100 :: int, 200 :: int), (500, 600)].
                bundleEvaluationBlockNumbers ?p ! i \<le> snd ([(100, 200), (500, 600)] ! i)"
    by (simp add: exPending_def All_less_Suc numeral_2_eq_2)
  have r: "getBlockRangeForChain (impliedBlockRanges ?p [(100, 200), (500, 600)]) 1
             (chainIdListForBundleEvaluationBlockNumbers ?dw) = Inr (100, 200)"
    by (simp add: ex_implied ex_range1)
  note inst = validate_disputes_iff_count_or_root_differs
    [OF checks ex_pending [symmetric] ends r ex_construct, of exWorld _ _ _ _ exWorld,
     unfolded ex_implied, OF ex_buildPool ex_buildRefund ex_buildSlow]
  from inst [simplified, OF ex_md] checks
  show ?thesis by (simp add: exPending_def exWorld_def)
qed

text \<open>
  C3, as stated, fails: on the bundle over two chains, a pending proposal whose
  three roots are the rebuilt ones and whose leaf count is 3, where the rebuilt
  pool rebalance root has 2 leaves, is disputed.
\<close>

theorem validate_roots_match_counterexample:
  "passesEarlierChecks exUtils
     (exDataworker (exPending [200, 600] 3 ''0x50101000101720'' ''0x521010001010360270102090''
                      ''0x51171000'') 0 [])
     1 [(100, 200), (500, 600)] \<and>
   map_sum id (\<lambda>x. tree (fst x))
     (buildPoolRebalanceRoot exUtils
        (exDataworker (exPending [200, 600] 3 ''0x50101000101720''
                         ''0x521010001010360270102090'' ''0x51171000'') 0 [])
        [(100, 200), (500, 600)] exSpokePoolClients exWorld) = Inr ''0x50101000101720'' \<and>
   map_sum id (\<lambda>x. tree (fst x))
     (buildRelayerRefundRoot exUtils
        (exDataworker (exPending [200, 600] 3 ''0x50101000101720''
                         ''0x521010001010360270102090'' ''0x51171000'') 0 [])
        [(100, 200), (500, 600)] exSpokePoolClients exWorld) = Inr ''0x521010001010360270102090'' \<and>
   map_sum id (\<lambda>x. tree (fst x))
     (buildSlowRelayRoot exUtils
        (exDataworker (exPending [200, 600] 3 ''0x50101000101720''
                         ''0x521010001010360270102090'' ''0x51171000'') 0 [])
        [(100, 200), (500, 600)] exSpokePoolClients exWorld) = Inr ''0x51171000'' \<and>
   (\<exists>w'. validateRootBundle exUtils
            (exDataworker (exPending [200, 600] 3 ''0x50101000101720''
                             ''0x521010001010360270102090'' ''0x51171000'') 0 [])
            exWorld = Inr ((), w') \<and>
         transactions w' =
           [disputeTransaction 1
              (generateMarkdownForDispute exUtils
                 (exPending [200, 600] 3 ''0x50101000101720'' ''0x521010001010360270102090''
                    ''0x51171000'')
               @ NL @ ''*PoolRebalance* root:0x50101000'')])"
proof -
  let ?p = "exPending [200, 600] 3 ''0x50101000101720'' ''0x521010001010360270102090'' ''0x51171000''"
  let ?dw = "exDataworker ?p 0 []"
  have checks: "passesEarlierChecks exUtils ?dw 1 [(100, 200), (500, 600)]"
    by (rule ex_checks) (simp_all add: exUtils_def)
  have ends: "\<forall>i < length [(100 :: int, 200 :: int), (500, 600)].
                bundleEvaluationBlockNumbers ?p ! i \<le> snd ([(100, 200), (500, 600)] ! i)"
    by (simp add: exPending_def All_less_Suc numeral_2_eq_2)
  have r: "getBlockRangeForChain (impliedBlockRanges ?p [(100, 200), (500, 600)]) 1
             (chainIdListForBundleEvaluationBlockNumbers ?dw) = Inr (100, 200)"
    by (simp add: ex_implied ex_range1)
  note inst = validateRootBundle_rebuild_outcome
    [OF checks ex_pending [symmetric] ends r ex_construct, of exWorld _ _ _ _ exWorld,
     unfolded ex_implied, OF ex_buildPool ex_buildRefund ex_buildSlow]
  from inst [simplified, OF ex_md]
  have "\<exists>w'. validateRootBundle exUtils ?dw exWorld = Inr ((), w') \<and>
         transactions w' =
           [disputeTransaction 1
              (generateMarkdownForDispute exUtils ?p @ NL @ ''*PoolRebalance* root:0x50101000'')]"
    by (simp add: exPending_def exWorld_def)
  with checks map_sum_tree [OF ex_buildPool] map_sum_tree [OF ex_buildRefund]
    map_sum_tree [OF ex_buildSlow]
  show ?thesis by simp
qed

text \<open>
  C8.  For a pending proposal that reaches the rebuilding of the roots, if the
  number of rebuilt pool rebalance leaves differs from the pending leaf count a
  dispute is enqueued, whatever the three rebuilt roots are, and so also when
  they equal the pending ones.
\<close>

theorem validate_disputes_leaf_count_mismatch:
  assumes "passesEarlierChecks U dw cid W"
    and "pending = getPendingRootBundleProposal (hubPoolClient (clients dw))"
    and "\<forall>i < length W. bundleEvaluationBlockNumbers pending ! i \<le> snd (W ! i)"
    and "getBlockRangeForChain (impliedBlockRanges pending W) 1
           (chainIdListForBundleEvaluationBlockNumbers dw) = Inr r"
    and "constructSpokePoolClientsForBlockAndUpdate dw (snd r) = Inr sc"
    and "map_sum id fst (buildPoolRebalanceRoot U dw (impliedBlockRanges pending W) sc w0) = Inr pool"
    and "map_sum id fst (buildRelayerRefundRoot U dw (impliedBlockRanges pending W) sc w0) = Inr refund"
    and "map_sum id fst (buildSlowRelayRoot U dw (impliedBlockRanges pending W) sc w0) = Inr slow"
    and "generateMarkdownForRootBundle U cid (impliedBlockRanges pending W)
           (leaves pool) (tree pool) (leaves refund) (tree refund) (leaves slow) (tree slow)
           = Inr md"
    and "int (length (leaves pool)) \<noteq> unclaimedPoolRebalanceLeafCount pending"
  shows "\<exists>w'. validateRootBundle U dw w = Inr ((), w') \<and>
              transactions w' =
                transactions w @
                  [disputeTransaction cid (generateMarkdownForDispute U pending @ NL @ md)]"
  using validateRootBundle_rebuild_outcome [OF assms(1-9), of w] assms(10) by simp

theorem validate_disputes_leaf_count_mismatch_witness:
  "tree \<lparr>leaves = [] :: PoolRebalanceLeaf list, tree = ''0x50101000101720''\<rparr>
     = poolRebalanceRoot (exPending [200, 600] 1 ''0x50101000101720''
                            ''0x521010001010360270102090'' ''0x51171000'') \<and>
   (\<exists>w'. validateRootBundle exUtils
            (exDataworker (exPending [200, 600] 1 ''0x50101000101720''
                             ''0x521010001010360270102090'' ''0x51171000'') 0 [])
            exWorld = Inr ((), w') \<and>
         transactions w' =
           [disputeTransaction 1
              (generateMarkdownForDispute exUtils
                 (exPending [200, 600] 1 ''0x50101000101720'' ''0x521010001010360270102090''
                    ''0x51171000'')
               @ NL @ ''*PoolRebalance* root:0x50101000'')])"
proof -
  let ?p = "exPending [200, 600] 1 ''0x50101000101720'' ''0x521010001010360270102090'' ''0x51171000''"
  let ?dw = "exDataworker ?p 0 []"
  have checks: "passesEarlierChecks exUtils ?dw 1 [(100, 200), (500, 600)]"
    by (rule ex_checks) (simp_all add: exUtils_def)
  have ends: "\<forall>i < length [(100 :: int, 200 :: int), (500, 600)].
                bundleEvaluationBlockNumbers ?p ! i \<le> snd ([(100, 200), (500, 600)] ! i)"
    by (simp add: exPending_def All_less_Suc numeral_2_eq_2)
  have r: "getBlockRangeForChain (impliedBlockRanges ?p [(100, 200), (500, 600)]) 1
             (chainIdListForBundleEvaluationBlockNumbers ?dw) = Inr (100, 200)"
    by (simp add: ex_implied ex_range1)
  note inst = validate_disputes_leaf_count_mismatch
    [OF checks ex_pending [symmetric] ends r ex_construct, of exWorld _ _ _ _ exWorld,
     unfolded ex_implied, OF ex_buildPool ex_buildRefund ex_buildSlow]
  from inst [simplified, OF ex_md]
  show ?thesis by (simp add: exPending_def exWorld_def)
qed
end
